theory Spec2Isabelle
  imports Complex_Main "HOL-Library.Word" "HOL-Library.Sublist"
begin

section \<open>Environment wrappers and decision loop of online\_rem.py\<close>

text \<open>
  Rewards, epsilon and Q-values are Python and torch floats. They are modelled as real
  numbers: rounding, infinities and NaN are outside the model. Exceptions are values of
  type \<open>error\<close>; a function that can raise returns \<open>error + 'a\<close>, with \<open>Inl\<close> for the
  exception.
\<close>

datatype error =
  ValueError | AssertionError | UnboundLocalError | ZeroDivisionError
  | TypeError | RuntimeError | IndexError | AttributeError

definition ebind :: "error + 'a \<Rightarrow> ('a \<Rightarrow> error + 'b) \<Rightarrow> error + 'b" where
  "ebind m f = (case m of Inl e \<Rightarrow> Inl e | Inr x \<Rightarrow> f x)"

subsection \<open>Environments\<close>

text \<open>
  A gym environment is a record of functions over its state \<open>'s\<close>: \<open>env_step\<close> and
  \<open>env_reset\<close> return the new state with their result and may raise; \<open>ale_lives\<close> is
  \<^verbatim>\<open>env.unwrapped.ale.lives()\<close> and \<open>get_action_meanings\<close> is
  \<^verbatim>\<open>env.unwrapped.get_action_meanings()\<close>. A step returns
  \<open>(obs, reward, done, info)\<close>. A wrapper over an environment with state \<open>'s\<close> is an
  environment whose state pairs the wrapper's own fields with \<open>'s\<close>.
\<close>

record ('s, 'o, 'i) env =
  env_step :: "'s \<Rightarrow> int \<Rightarrow> error + (('o \<times> real \<times> bool \<times> 'i) \<times> 's)"
  env_reset :: "'s \<Rightarrow> error + ('o \<times> 's)"
  ale_lives :: "'s \<Rightarrow> int"
  get_action_meanings :: "string list"

fun out_obs :: "'o \<times> real \<times> bool \<times> 'i \<Rightarrow> 'o" where
  "out_obs (ob, r, d, i) = ob"

fun out_reward :: "'o \<times> real \<times> bool \<times> 'i \<Rightarrow> real" where
  "out_reward (ob, r, d, i) = r"

fun out_done :: "'o \<times> real \<times> bool \<times> 'i \<Rightarrow> bool" where
  "out_done (ob, r, d, i) = d"

fun out_info :: "'o \<times> real \<times> bool \<times> 'i \<Rightarrow> 'i" where
  "out_info (ob, r, d, i) = i"

text \<open>Stepping an environment through a list of actions, collecting the results.\<close>

fun env_run ::
  "('s, 'o, 'i) env \<Rightarrow> 's \<Rightarrow> int list \<Rightarrow> error + (('o \<times> real \<times> bool \<times> 'i) list \<times> 's)" where
  "env_run e s [] = Inr ([], s)"
| "env_run e s (a # as) =
     ebind (env_step e s a) (\<lambda>(out, s').
     ebind (env_run e s' as) (\<lambda>(outs, s''). Inr (out # outs, s'')))"

text \<open>An environment none of whose calls raises.\<close>

definition reliable_env :: "('s, 'o, 'i) env \<Rightarrow> bool" where
  "reliable_env e \<longleftrightarrow>
     (\<forall>s a. \<exists>r. env_step e s a = Inr r) \<and> (\<forall>s. \<exists>r. env_reset e s = Inr r)"

subsection \<open>FireResetEnv\<close>

text \<open>
  \<^verbatim>\<open>FireResetEnv.reset\<close>: reset, step 1, reset again if done, step 2, reset again if
  done; the value returned is the \<^verbatim>\<open>obs\<close> bound by the step with action 2.
\<close>

definition FireResetEnv_reset :: "('s, 'o, 'i) env \<Rightarrow> 's \<Rightarrow> error + ('o \<times> 's)" where
  "FireResetEnv_reset e s =
     ebind (env_reset e s) (\<lambda>(_, s).
     ebind (env_step e s 1) (\<lambda>((obs, _, done, _), s).
     ebind (if done then ebind (env_reset e s) (\<lambda>(_, s). Inr s) else Inr s) (\<lambda>s.
     ebind (env_step e s 2) (\<lambda>((obs, _, done, _), s).
     ebind (if done then ebind (env_reset e s) (\<lambda>(_, s). Inr s) else Inr s) (\<lambda>s.
     Inr (obs, s))))))"

definition FireResetEnv_step ::
  "('s, 'o, 'i) env \<Rightarrow> 's \<Rightarrow> int \<Rightarrow> error + (('o \<times> real \<times> bool \<times> 'i) \<times> 's)" where
  "FireResetEnv_step e s ac = env_step e s ac"

text \<open>
  The constructor asserts that action 1 is \<^verbatim>\<open>"FIRE"\<close> (indexing a list of fewer than
  two meanings raises \<^verbatim>\<open>IndexError\<close>) and that there are at least three actions.
\<close>

definition FireResetEnv :: "('s, 'o, 'i) env \<Rightarrow> error + ('s, 'o, 'i) env" where
  "FireResetEnv e =
     (if length (get_action_meanings e) < 2 then Inl IndexError
      else if get_action_meanings e ! 1 \<noteq> ''FIRE'' then Inl AssertionError
      else if length (get_action_meanings e) < 3 then Inl AssertionError
      else Inr \<lparr>env_step = FireResetEnv_step e, env_reset = FireResetEnv_reset e,
                ale_lives = ale_lives e, get_action_meanings = get_action_meanings e\<rparr>)"

subsection \<open>EpisodicLifeEnv\<close>

record EpisodicLife =
  lives :: int
  was_real_done :: bool

definition EpisodicLifeEnv_init :: EpisodicLife where
  "EpisodicLifeEnv_init = \<lparr>lives = 0, was_real_done = True\<rparr>"

definition EpisodicLifeEnv_step ::
  "('s, 'o, 'i) env \<Rightarrow> EpisodicLife \<times> 's \<Rightarrow> int
     \<Rightarrow> error + (('o \<times> real \<times> bool \<times> 'i) \<times> (EpisodicLife \<times> 's))" where
  "EpisodicLifeEnv_step e st action =
     (case st of (self, s) \<Rightarrow>
        ebind (env_step e s action) (\<lambda>((obs, reward, done, info), s).
          let self = self\<lparr>was_real_done := done\<rparr>;
              lives' = ale_lives e s;
              done = (if lives' < lives self \<and> lives' > 0 then True else done);
              self = self\<lparr>lives := lives'\<rparr>
          in Inr ((obs, reward, done, info), (self, s))))"

definition EpisodicLifeEnv_reset ::
  "('s, 'o, 'i) env \<Rightarrow> EpisodicLife \<times> 's \<Rightarrow> error + ('o \<times> (EpisodicLife \<times> 's))" where
  "EpisodicLifeEnv_reset e st =
     (case st of (self, s) \<Rightarrow>
        ebind (if was_real_done self then env_reset e s
               else ebind (env_step e s 0) (\<lambda>((obs, _, _, _), s). Inr (obs, s))) (\<lambda>(obs, s).
          Inr (obs, (self\<lparr>lives := ale_lives e s\<rparr>, s))))"

definition EpisodicLifeEnv :: "('s, 'o, 'i) env \<Rightarrow> (EpisodicLife \<times> 's, 'o, 'i) env" where
  "EpisodicLifeEnv e =
     \<lparr>env_step = EpisodicLifeEnv_step e, env_reset = EpisodicLifeEnv_reset e,
      ale_lives = (\<lambda>(self, s). ale_lives e s), get_action_meanings = get_action_meanings e\<rparr>"

subsection \<open>MaxAndSkipEnv\<close>

text \<open>
  A raw frame is its \<^verbatim>\<open>uint8\<close> samples in row-major order. The wrapper's state is the
  two rows of \<^verbatim>\<open>_obs_buffer\<close>, which persist between steps; \<^verbatim>\<open>skip\<close> is fixed at
  construction. The record holds what the loop of \<^verbatim>\<open>step\<close> assigns: \<^verbatim>\<open>done\<close>
  starts as \<^verbatim>\<open>None\<close> and \<^verbatim>\<open>info\<close> is unbound until the first tick.
\<close>

type_synonym frame = "8 word list"

record 'i skip_vars =
  obs_buffer0 :: frame
  obs_buffer1 :: frame
  total_reward :: real
  done_opt :: "bool option"
  info_opt :: "'i option"

text \<open>
  The loop \<^verbatim>\<open>for i in range(self._skip)\<close>, over the list of the indices still to run;
  \<^verbatim>\<open>break\<close> returns at once.
\<close>

fun MaxAndSkipEnv_loop ::
  "('s, frame, 'i) env \<Rightarrow> int \<Rightarrow> int \<Rightarrow> nat list \<Rightarrow> 'i skip_vars \<times> 's
     \<Rightarrow> error + ('i skip_vars \<times> 's)" where
  "MaxAndSkipEnv_loop e skip action [] (v, s) = Inr (v, s)"
| "MaxAndSkipEnv_loop e skip action (i # rest) (v, s) =
     ebind (env_step e s action) (\<lambda>((obs, reward, done, info), s).
       let v = (if int i = skip - 2 then v\<lparr>obs_buffer0 := obs\<rparr> else v);
           v = (if int i = skip - 1 then v\<lparr>obs_buffer1 := obs\<rparr> else v);
           v = v\<lparr>total_reward := total_reward v + reward,
                 done_opt := Some done, info_opt := Some info\<rparr>
       in if done then Inr (v, s) else MaxAndSkipEnv_loop e skip action rest (v, s))"

text \<open>\<^verbatim>\<open>self._obs_buffer.max(axis=0)\<close>: the element-wise maximum of the two rows.\<close>

definition obs_buffer_max :: "frame \<Rightarrow> frame \<Rightarrow> frame" where
  "obs_buffer_max b0 b1 = map2 max b0 b1"

text \<open>
  \<^verbatim>\<open>MaxAndSkipEnv.step\<close>. When the loop body never ran (\<^verbatim>\<open>skip\<close> below 1) the
  \<^verbatim>\<open>return\<close> reads the unbound \<^verbatim>\<open>info\<close>.
\<close>

definition MaxAndSkipEnv_step ::
  "('s, frame, 'i) env \<Rightarrow> int \<Rightarrow> (frame \<times> frame) \<times> 's \<Rightarrow> int
     \<Rightarrow> error + ((frame \<times> real \<times> bool \<times> 'i) \<times> ((frame \<times> frame) \<times> 's))" where
  "MaxAndSkipEnv_step e skip st action =
     (case st of ((b0, b1), s) \<Rightarrow>
        ebind (MaxAndSkipEnv_loop e skip action [0..<nat skip]
                 (\<lparr>obs_buffer0 = b0, obs_buffer1 = b1, total_reward = 0,
                   done_opt = None, info_opt = None\<rparr>, s)) (\<lambda>(v, s).
          let max_frame = obs_buffer_max (obs_buffer0 v) (obs_buffer1 v)
          in case (done_opt v, info_opt v) of
               (Some done, Some info) \<Rightarrow>
                 Inr ((max_frame, total_reward v, done, info),
                      ((obs_buffer0 v, obs_buffer1 v), s))
             | _ \<Rightarrow> Inl UnboundLocalError))"

definition MaxAndSkipEnv_reset ::
  "('s, frame, 'i) env \<Rightarrow> (frame \<times> frame) \<times> 's \<Rightarrow> error + (frame \<times> ((frame \<times> frame) \<times> 's))" where
  "MaxAndSkipEnv_reset e st =
     (case st of (buf, s) \<Rightarrow> ebind (env_reset e s) (\<lambda>(obs, s). Inr (obs, (buf, s))))"

text \<open>The buffer starts as zeros of the observation space's shape, \<open>n\<close> samples a row.\<close>

definition MaxAndSkipEnv_init :: "nat \<Rightarrow> frame \<times> frame" where
  "MaxAndSkipEnv_init n = (replicate n 0, replicate n 0)"

definition MaxAndSkipEnv ::
  "('s, frame, 'i) env \<Rightarrow> int \<Rightarrow> ((frame \<times> frame) \<times> 's, frame, 'i) env" where
  "MaxAndSkipEnv e skip =
     \<lparr>env_step = MaxAndSkipEnv_step e skip, env_reset = MaxAndSkipEnv_reset e,
      ale_lives = (\<lambda>(buf, s). ale_lives e s), get_action_meanings = get_action_meanings e\<rparr>"

text \<open>
  The ticks of a repeat window, for stating what a step returns: the results of at most
  \<open>n\<close> successive inner steps with one action, ending with the first that reports done.
\<close>

fun run_ticks ::
  "('s, 'o, 'i) env \<Rightarrow> nat \<Rightarrow> int \<Rightarrow> 's \<Rightarrow> error + (('o \<times> real \<times> bool \<times> 'i) list \<times> 's)" where
  "run_ticks e 0 action s = Inr ([], s)"
| "run_ticks e (Suc n) action s =
     ebind (env_step e s action) (\<lambda>(out, s).
       if out_done out then Inr ([out], s)
       else ebind (run_ticks e n action s) (\<lambda>(outs, s). Inr (out # outs, s)))"

text \<open>
  What a run of the loop over the indices \<open>i0, ..., i0 + n - 1\<close> leaves in its
  variables, in terms of the ticks \<open>outs\<close> it executed.
\<close>

definition window_ok ::
  "int \<Rightarrow> nat \<Rightarrow> nat \<Rightarrow> 'i skip_vars \<Rightarrow> 'i skip_vars \<Rightarrow> (frame \<times> real \<times> bool \<times> 'i) list \<Rightarrow> bool" where
  "window_ok skip i0 n v v' outs \<longleftrightarrow>
     total_reward v' = total_reward v + sum_list (map out_reward outs) \<and>
     (n = 0 \<longrightarrow> v' = v) \<and>
     (0 < n \<longrightarrow> outs \<noteq> [] \<and> done_opt v' = Some (out_done (last outs)) \<and>
        info_opt v' = Some (out_info (last outs))) \<and>
     length outs \<le> n \<and> (length outs < n \<longrightarrow> out_done (last outs)) \<and>
     obs_buffer0 v' =
       (if int i0 \<le> skip - 2 \<and> skip - 2 < int i0 + int (length outs)
        then out_obs (outs ! nat (skip - 2 - int i0)) else obs_buffer0 v) \<and>
     obs_buffer1 v' =
       (if int i0 \<le> skip - 1 \<and> skip - 1 < int i0 + int (length outs)
        then out_obs (outs ! nat (skip - 1 - int i0)) else obs_buffer1 v)"

text \<open>Four ticks of two-sample frames, for evaluating a repeat window.\<close>

definition flicker_script :: "(frame \<times> real \<times> bool \<times> int) list" where
  "flicker_script =
     [([1, 9], 1, False, 3), ([2, 8], 2, False, 3), ([3, 7], 1 / 2, False, 3),
      ([5, 4], 1, False, 3)]"

subsection \<open>ClipRewardEnv\<close>

text \<open>
  \<^verbatim>\<open>ClipRewardEnv.reward\<close>: \<^verbatim>\<open>return np.sign(reward)\<close>. The class is a
  \<^verbatim>\<open>gym.RewardWrapper\<close> with this method; as an environment it is \<open>ClipRewardEnv\<close>,
  defined with the other wrappers of gym's base classes.
\<close>

definition np_sign :: "real \<Rightarrow> real" where
  "np_sign x = (if x < 0 then - 1 else if x = 0 then 0 else 1)"

definition ClipRewardEnv_reward :: "real \<Rightarrow> real" where
  "ClipRewardEnv_reward reward = np_sign reward"

subsection \<open>LazyFrames and FrameStack\<close>

text \<open>
  An observation below the frame stack is the list of its slices along axis 0 (the
  channels, after \<^verbatim>\<open>ImageToPyTorch\<close>), so \<^verbatim>\<open>np.concatenate(frames, axis=0)\<close> appends
  the lists; it raises \<^verbatim>\<open>ValueError\<close> on an empty list of arrays.
\<close>

definition np_concatenate :: "'c list list \<Rightarrow> error + 'c list" where
  "np_concatenate arrays = (if arrays = [] then Inl ValueError else Inr (concat arrays))"

text \<open>
  \<^verbatim>\<open>LazyFrames\<close>: the fields \<^verbatim>\<open>_frames\<close> and \<^verbatim>\<open>_out\<close>. \<^verbatim>\<open>_force\<close> concatenates
  once, caches the result and drops the frames; \<^verbatim>\<open>__array__\<close> with no dtype returns
  what \<^verbatim>\<open>_force\<close> returns.
\<close>

record 'c LazyFrames =
  lf_frames :: "'c list list option"
  lf_out :: "'c list option"

definition LazyFrames_init :: "'c list list \<Rightarrow> 'c LazyFrames" where
  "LazyFrames_init frames = \<lparr>lf_frames = Some frames, lf_out = None\<rparr>"

definition LazyFrames_force :: "'c LazyFrames \<Rightarrow> error + ('c list \<times> 'c LazyFrames)" where
  "LazyFrames_force self =
     (case lf_out self of
        Some out \<Rightarrow> Inr (out, self)
      | None \<Rightarrow>
          (case lf_frames self of
             None \<Rightarrow> Inl TypeError
           | Some frames \<Rightarrow>
               ebind (np_concatenate frames) (\<lambda>out.
                 Inr (out, self\<lparr>lf_out := Some out, lf_frames := None\<rparr>))))"

definition LazyFrames_array :: "'c LazyFrames \<Rightarrow> error + ('c list \<times> 'c LazyFrames)" where
  "LazyFrames_array self = LazyFrames_force self"

text \<open>
  \<^verbatim>\<open>deque([], maxlen=k).append\<close>: the item is added on the right and, when the deque
  then holds more than \<open>k\<close> items, the leftmost one is dropped.
\<close>

definition deque_append :: "nat \<Rightarrow> 'a list \<Rightarrow> 'a \<Rightarrow> 'a list" where
  "deque_append k frames x = (let fs = frames @ [x] in if k < length fs then tl fs else fs)"

text \<open>
  \<^verbatim>\<open>FrameStack\<close>: the state is the deque \<^verbatim>\<open>self.frames\<close>; \<open>k\<close> is fixed at
  construction. \<^verbatim>\<open>_get_ob\<close> asserts that the deque holds \<open>k\<close> frames and wraps a copy
  of it.
\<close>

definition FrameStack_get_ob :: "nat \<Rightarrow> 'c list list \<Rightarrow> error + 'c LazyFrames" where
  "FrameStack_get_ob k frames =
     (if length frames \<noteq> k then Inl AssertionError else Inr (LazyFrames_init frames))"

definition FrameStack_reset ::
  "('s, 'c list, 'i) env \<Rightarrow> nat \<Rightarrow> 'c list list \<times> 's
     \<Rightarrow> error + ('c LazyFrames \<times> ('c list list \<times> 's))" where
  "FrameStack_reset e k st =
     (case st of (frames, s) \<Rightarrow>
        ebind (env_reset e s) (\<lambda>(ob, s).
          let frames = fold (\<lambda>_ fs. deque_append k fs ob) [0..<k] frames
          in ebind (FrameStack_get_ob k frames) (\<lambda>lf. Inr (lf, (frames, s)))))"

definition FrameStack_step ::
  "('s, 'c list, 'i) env \<Rightarrow> nat \<Rightarrow> 'c list list \<times> 's \<Rightarrow> int
     \<Rightarrow> error + (('c LazyFrames \<times> real \<times> bool \<times> 'i) \<times> ('c list list \<times> 's))" where
  "FrameStack_step e k st action =
     (case st of (frames, s) \<Rightarrow>
        ebind (env_step e s action) (\<lambda>((ob, reward, done, info), s).
          let frames = deque_append k frames ob
          in ebind (FrameStack_get_ob k frames) (\<lambda>lf.
               Inr ((lf, reward, done, info), (frames, s)))))"

definition FrameStack ::
  "('s, 'c list, 'i) env \<Rightarrow> nat \<Rightarrow> ('c list list \<times> 's, 'c LazyFrames, 'i) env" where
  "FrameStack e k =
     \<lparr>env_step = FrameStack_step e k, env_reset = FrameStack_reset e k,
      ale_lives = (\<lambda>(frames, s). ale_lives e s), get_action_meanings = get_action_meanings e\<rparr>"

text \<open>The last \<open>k\<close> items of a list (all of it when it is shorter).\<close>

definition last_k :: "nat \<Rightarrow> 'a list \<Rightarrow> 'a list" where
  "last_k k xs = drop (length xs - k) xs"

text \<open>Five ticks with distinct one-channel marker frames, for evaluating the stack.\<close>

definition marker_script :: "(nat list \<times> real \<times> bool \<times> int) list" where
  "marker_script =
     [([1], 0, False, 3), ([2], 0, False, 3), ([3], 1, False, 3), ([4], 0, False, 3),
      ([5], 0, False, 3)]"

subsection \<open>A scripted emulator\<close>

text \<open>
  A stub emulator for evaluating the wrappers: each step consumes the next tick
  \<open>(obs, reward, done, lives)\<close> of its script (and raises once the script is used up), a
  reset restores the initial life count, and every call is recorded.
\<close>

datatype call = CallReset | CallStep int

record 'o scripted =
  script :: "('o \<times> real \<times> bool \<times> int) list"
  cur_lives :: int
  calls :: "call list"
  reset_obs :: 'o
  reset_lives :: int

definition scripted_env :: "('o scripted, 'o, unit) env" where
  "scripted_env =
     \<lparr>env_step = (\<lambda>s a. case script s of
          [] \<Rightarrow> Inl RuntimeError
        | (ob, r, d, l) # rest \<Rightarrow>
            Inr ((ob, r, d, ()),
                 s\<lparr>script := rest, cur_lives := l, calls := calls s @ [CallStep a]\<rparr>)),
      env_reset = (\<lambda>s. Inr (reset_obs s,
          s\<lparr>cur_lives := reset_lives s, calls := calls s @ [CallReset]\<rparr>)),
      ale_lives = cur_lives,
      get_action_meanings = [''NOOP'', ''FIRE'', ''RIGHT'', ''LEFT'']\<rparr>"

definition scripted_start ::
  "('o \<times> real \<times> bool \<times> int) list \<Rightarrow> 'o \<Rightarrow> int \<Rightarrow> 'o scripted" where
  "scripted_start ticks ob l =
     \<lparr>script = ticks, cur_lives = l, calls = [], reset_obs = ob, reset_lives = l\<rparr>"

text \<open>
  The life script of the lifecycle scenario: six ticks with life counts 3, 3, 2, 2, 1, 0,
  the inner done flag raised at the last tick only; observations and rewards are left
  open. \<open>done_flags\<close> reads the done flags off a run.
\<close>

definition life_script :: "(nat \<Rightarrow> 'o) \<Rightarrow> (nat \<Rightarrow> real) \<Rightarrow> ('o \<times> real \<times> bool \<times> int) list" where
  "life_script ob r =
     [(ob 0, r 0, False, 3), (ob 1, r 1, False, 3), (ob 2, r 2, False, 2),
      (ob 3, r 3, False, 2), (ob 4, r 4, False, 1), (ob 5, r 5, True, 0)]"

definition done_flags ::
  "error + (('o \<times> real \<times> bool \<times> 'i) list \<times> 's) \<Rightarrow> error + bool list" where
  "done_flags res = (case res of Inl e \<Rightarrow> Inl e | Inr (outs, s) \<Rightarrow> Inr (map out_done outs))"

subsection \<open>The remaining wrappers and the pipeline built for training\<close>

text \<open>
  \<^verbatim>\<open>gym.ObservationWrapper\<close> and \<^verbatim>\<open>gym.RewardWrapper\<close> (gym's base classes): step and
  reset pass the inner result on with the observation, respectively the reward, mapped.
\<close>

definition ObservationWrapper :: "('o \<Rightarrow> 'p) \<Rightarrow> ('s, 'o, 'i) env \<Rightarrow> ('s, 'p, 'i) env" where
  "ObservationWrapper observation e =
     \<lparr>env_step = (\<lambda>s a. ebind (env_step e s a) (\<lambda>((obs, reward, done, info), s).
          Inr ((observation obs, reward, done, info), s))),
      env_reset = (\<lambda>s. ebind (env_reset e s) (\<lambda>(obs, s). Inr (observation obs, s))),
      ale_lives = ale_lives e, get_action_meanings = get_action_meanings e\<rparr>"

definition RewardWrapper :: "(real \<Rightarrow> real) \<Rightarrow> ('s, 'o, 'i) env \<Rightarrow> ('s, 'o, 'i) env" where
  "RewardWrapper reward_fn e =
     \<lparr>env_step = (\<lambda>s a. ebind (env_step e s a) (\<lambda>((obs, reward, done, info), s).
          Inr ((obs, reward_fn reward, done, info), s))),
      env_reset = env_reset e,
      ale_lives = ale_lives e, get_action_meanings = get_action_meanings e\<rparr>"

definition ClipRewardEnv :: "('s, 'o, 'i) env \<Rightarrow> ('s, 'o, 'i) env" where
  "ClipRewardEnv e = RewardWrapper ClipRewardEnv_reward e"

text \<open>
  The image operations are library code (\<^verbatim>\<open>cv2.cvtColor\<close>, \<^verbatim>\<open>cv2.resize\<close>, the cast
  and division of \<^verbatim>\<open>ScaledFloatFrame\<close>, \<^verbatim>\<open>np.transpose\<close>) and are parameters. Arrays
  are lists of samples; \<open>'a\<close> is the sample type of a raw frame and \<open>'b\<close> that of a
  processed one. \<^verbatim>\<open>WarpFrame\<close> is taken with its defaults (grayscale, no dictionary key).
\<close>

record ('a, 'b) image_ops =
  cvtColor :: "'a list \<Rightarrow> 'b list"
  resize :: "'b list \<Rightarrow> 'b list"
  scaled_float :: "'b list \<Rightarrow> 'b list"
  transpose_chw :: "'b list \<Rightarrow> 'b list"

definition WarpFrame :: "('a, 'b) image_ops \<Rightarrow> ('s, 'a list, 'i) env \<Rightarrow> ('s, 'b list, 'i) env" where
  "WarpFrame ops e = ObservationWrapper (\<lambda>obs. resize ops (cvtColor ops obs)) e"

definition ScaledFloatFrame ::
  "('a, 'b) image_ops \<Rightarrow> ('s, 'b list, 'i) env \<Rightarrow> ('s, 'b list, 'i) env" where
  "ScaledFloatFrame ops e = ObservationWrapper (scaled_float ops) e"

definition ImageToPyTorch ::
  "('a, 'b) image_ops \<Rightarrow> ('s, 'b list, 'i) env \<Rightarrow> ('s, 'b list, 'i) env" where
  "ImageToPyTorch ops e = ObservationWrapper (transpose_chw ops) e"

text \<open>
  An optional wrapper that is not applied: the state component the wrapper would own is
  carried along unchanged, so that both branches of \<^verbatim>\<open>if episode_life:\<close> have one type.
\<close>

definition not_wrapped :: "('s, 'o, 'i) env \<Rightarrow> ('w \<times> 's, 'o, 'i) env" where
  "not_wrapped e =
     \<lparr>env_step = (\<lambda>(w, s) a. ebind (env_step e s a) (\<lambda>(out, s). Inr (out, (w, s)))),
      env_reset = (\<lambda>(w, s). ebind (env_reset e s) (\<lambda>(obs, s). Inr (obs, (w, s)))),
      ale_lives = (\<lambda>(w, s). ale_lives e s), get_action_meanings = get_action_meanings e\<rparr>"

text \<open>The observation of the finished pipeline: an array, or the lazy stack of frames.\<close>

datatype 'b observation = Plain "'b list" | Stacked "'b LazyFrames"

text \<open>\<^verbatim>\<open>wrap_deepmind\<close>, in the order of its statements.\<close>

definition wrap_deepmind ::
  "('a, 'b) image_ops \<Rightarrow> ('s, 'a list, 'i) env \<Rightarrow> bool \<Rightarrow> bool \<Rightarrow> bool \<Rightarrow> bool
     \<Rightarrow> error + ('b list list \<times> EpisodicLife \<times> 's, 'b observation, 'i) env" where
  "wrap_deepmind ops e episode_life clip_rewards frame_stack scale =
     (let env1 = (if episode_life then EpisodicLifeEnv e else not_wrapped e)
      in ebind (if ''FIRE'' \<in> set (get_action_meanings env1) then FireResetEnv env1
                else Inr env1) (\<lambda>env2.
           let env3 = WarpFrame ops env2;
               env4 = (if scale then ScaledFloatFrame ops env3 else env3);
               env5 = (if clip_rewards then ClipRewardEnv env4 else env4);
               env6 = ImageToPyTorch ops env5
           in Inr (if frame_stack then ObservationWrapper Stacked (FrameStack env6 4)
                   else ObservationWrapper Plain (not_wrapped env6))))"

text \<open>
  \<^verbatim>\<open>NoopResetEnv\<close>. \<^verbatim>\<open>np_random.randint(low, high)\<close> draws from the generator of the
  unwrapped environment, kept here with the wrapper: a stream of naturals and a position.
\<close>

record rng =
  rng_stream :: "nat \<Rightarrow> nat"
  rng_pos :: nat

definition randint :: "rng \<Rightarrow> int \<Rightarrow> int \<Rightarrow> error + (int \<times> rng)" where
  "randint g low high =
     (if high \<le> low then Inl ValueError
      else Inr (low + int (rng_stream g (rng_pos g)) mod (high - low),
                g\<lparr>rng_pos := Suc (rng_pos g)\<rparr>))"

record NoopReset =
  override_num_noops :: "int option"
  np_random :: rng

fun noop_loop ::
  "('s, 'o, 'i) env \<Rightarrow> nat \<Rightarrow> 'o option \<Rightarrow> 's \<Rightarrow> error + ('o option \<times> 's)" where
  "noop_loop e 0 obs s = Inr (obs, s)"
| "noop_loop e (Suc n) obs s =
     ebind (env_step e s 0) (\<lambda>((ob, _, done, _), s).
       if done then ebind (env_reset e s) (\<lambda>(ob, s). noop_loop e n (Some ob) s)
       else noop_loop e n (Some ob) s)"

text \<open>
  \<^verbatim>\<open>NoopResetEnv.reset\<close>. After \<^verbatim>\<open>assert noops > 0\<close> the loop runs at least once, so
  the \<^verbatim>\<open>obs\<close> returned is never the initial \<^verbatim>\<open>None\<close>.
\<close>

definition NoopResetEnv_reset ::
  "('s, 'o, 'i) env \<Rightarrow> int \<Rightarrow> NoopReset \<times> 's \<Rightarrow> error + ('o \<times> (NoopReset \<times> 's))" where
  "NoopResetEnv_reset e noop_max st =
     (case st of (self, s) \<Rightarrow>
        ebind (env_reset e s) (\<lambda>(_, s).
        ebind (case override_num_noops self of
                 Some n \<Rightarrow> Inr (n, self)
               | None \<Rightarrow> ebind (randint (np_random self) 1 (noop_max + 1))
                           (\<lambda>(n, g). Inr (n, self\<lparr>np_random := g\<rparr>))) (\<lambda>(noops, self).
          if \<not> 0 < noops then Inl AssertionError
          else ebind (noop_loop e (nat noops) None s) (\<lambda>(obs, s).
                 case obs of None \<Rightarrow> Inl AssertionError
                 | Some ob \<Rightarrow> Inr (ob, (self, s))))))"

definition NoopResetEnv ::
  "('s, 'o, 'i) env \<Rightarrow> int \<Rightarrow> error + (NoopReset \<times> 's, 'o, 'i) env" where
  "NoopResetEnv e noop_max =
     (if get_action_meanings e = [] then Inl IndexError
      else if get_action_meanings e ! 0 \<noteq> ''NOOP'' then Inl AssertionError
      else Inr \<lparr>env_step = (\<lambda>(self, s) ac. ebind (env_step e s ac)
                    (\<lambda>(out, s). Inr (out, (self, s)))),
                env_reset = NoopResetEnv_reset e noop_max,
                ale_lives = (\<lambda>(self, s). ale_lives e s),
                get_action_meanings = get_action_meanings e\<rparr>)"

text \<open>\<^verbatim>\<open>wrap_atari\<close>; \<open>spec_id\<close> is \<^verbatim>\<open>env.spec.id\<close>.\<close>

definition wrap_atari ::
  "string \<Rightarrow> ('s, frame, 'i) env \<Rightarrow> nat option
     \<Rightarrow> error + ((frame \<times> frame) \<times> (NoopReset \<times> 's), frame, 'i) env" where
  "wrap_atari spec_id e max_episode_steps =
     (if \<not> sublist ''NoFrameskip'' spec_id then Inl AssertionError
      else ebind (NoopResetEnv e 30) (\<lambda>env.
             let env = MaxAndSkipEnv env 4
             in if max_episode_steps \<noteq> None then Inl AssertionError else Inr env))"

text \<open>
  \<^verbatim>\<open>gym.wrappers.RecordEpisodeStatistics\<close> (gym's code): observation, reward and done
  pass through; the return and length of the episode are accumulated and put into the
  info of the step that reports done.
\<close>

definition RecordEpisodeStatistics ::
  "('s, 'o, 'i) env \<Rightarrow> ((real \<times> nat) \<times> 's, 'o, 'i \<times> (real \<times> nat) option) env" where
  "RecordEpisodeStatistics e =
     \<lparr>env_step = (\<lambda>((ret, len), s) a.
          ebind (env_step e s a) (\<lambda>((obs, reward, done, info), s).
            let ret = ret + reward; len = Suc len
            in if done then Inr ((obs, reward, done, (info, Some (ret, len))), ((0, 0), s))
               else Inr ((obs, reward, done, (info, None)), ((ret, len), s)))),
      env_reset = (\<lambda>(stats, s). ebind (env_reset e s) (\<lambda>(obs, s). Inr (obs, ((0, 0), s)))),
      ale_lives = (\<lambda>(stats, s). ale_lives e s),
      get_action_meanings = get_action_meanings e\<rparr>"

text \<open>
  Lines 473 to 485: the environment the loop trains on, with
  \<^verbatim>\<open>episode_life=False, clip_rewards=True, frame_stack=True, scale=False\<close>.
  \<open>pipeline\<close> is the same construction with \<^verbatim>\<open>episode_life\<close> left open.
\<close>

definition pipeline ::
  "bool \<Rightarrow> (8 word, 'b) image_ops \<Rightarrow> string \<Rightarrow> ('s, frame, 'i) env
     \<Rightarrow> error + ('b list list \<times> EpisodicLife \<times> (real \<times> nat) \<times> (frame \<times> frame) \<times> NoopReset \<times> 's,
                 'b observation, 'i \<times> (real \<times> nat) option) env" where
  "pipeline episode_life ops spec_id emulator =
     ebind (wrap_atari spec_id emulator None) (\<lambda>env.
       let env = RecordEpisodeStatistics env
       in wrap_deepmind ops env episode_life True True False)"

definition training_env ::
  "(8 word, 'b) image_ops \<Rightarrow> string \<Rightarrow> ('s, frame, 'i) env
     \<Rightarrow> error + ('b list list \<times> EpisodicLife \<times> (real \<times> nat) \<times> (frame \<times> frame) \<times> NoopReset \<times> 's,
                 'b observation, 'i \<times> (real \<times> nat) option) env" where
  "training_env ops spec_id emulator = pipeline False ops spec_id emulator"

text \<open>
  A step in which the emulator loses a life: four ticks with life counts 3, 3, 2, 2 and
  no tick reporting done, taken from a pipeline state whose window is full and whose
  life tracker (where one is applied) has seen three lives. The image operations are
  identities. \<open>step_done_lives\<close> reads off a step of a built pipeline the done flag
  together with the emulator's life count before and after.
\<close>

definition plain_ops :: "(8 word, 8 word) image_ops" where
  "plain_ops = \<lparr>cvtColor = (\<lambda>x. x), resize = (\<lambda>x. x), scaled_float = (\<lambda>x. x),
     transpose_chw = (\<lambda>x. x)\<rparr>"

definition life_loss_script :: "(frame \<times> real \<times> bool \<times> int) list" where
  "life_loss_script =
     [([1, 0], 0, False, 3), ([2, 0], 0, False, 3), ([3, 0], 1, False, 2),
      ([4, 0], 0, False, 2)]"

definition life_loss_state ::
  "8 word list list \<times> EpisodicLife \<times> (real \<times> nat) \<times> (frame \<times> frame) \<times> NoopReset
     \<times> frame scripted" where
  "life_loss_state =
     ([[0, 0], [0, 0], [0, 0], [0, 0]], \<lparr>lives = 3, was_real_done = False\<rparr>, (0, 0),
      MaxAndSkipEnv_init 2,
      \<lparr>override_num_noops = None, np_random = \<lparr>rng_stream = (\<lambda>_. 0), rng_pos = 0\<rparr>\<rparr>,
      scripted_start life_loss_script [0, 0] 3)"

definition step_done_lives ::
  "error + ('s, 'o, 'i) env \<Rightarrow> 's \<Rightarrow> int \<Rightarrow> error + (bool \<times> int \<times> int)" where
  "step_done_lives built st a =
     ebind built (\<lambda>env. ebind (env_step env st a) (\<lambda>(out, st').
       Inr (out_done out, ale_lives env st, ale_lives env st')))"

subsection \<open>Tensors\<close>

text \<open>
  A torch tensor is its shape and its entries in row-major order. The transform matrix
  is a tensor of rank two, \<^verbatim>\<open>(num_heads, num_convex_combinations)\<close>, kept as a type
  of its own.
\<close>

record tensor =
  shape :: "nat list"
  data :: "real list"

record matrix =
  nrows :: nat
  ncols :: nat
  entries :: "real list"

text \<open>The \<open>n\<close> consecutive blocks of \<open>h\<close> entries: the slices along the last axis.\<close>

definition rows_of :: "nat \<Rightarrow> nat \<Rightarrow> real list \<Rightarrow> real list list" where
  "rows_of n h xs = map (\<lambda>i. take h (drop (i * h) xs)) [0..<n]"

text \<open>
  \<^verbatim>\<open>torch.mean(t, axis=-1)\<close>. On a scalar the mean is the scalar. An empty last axis
  gives NaN in torch, which the real-valued model does not represent (it gives 0).
\<close>

definition torch_mean_last :: "tensor \<Rightarrow> tensor" where
  "torch_mean_last t =
     (if shape t = [] then t
      else (let h = last (shape t); n = prod_list (butlast (shape t))
            in \<lparr>shape = butlast (shape t),
                data = map (\<lambda>r. sum_list r / real h) (rows_of n h (data t))\<rparr>))"

text \<open>
  \<^verbatim>\<open>torch.matmul(t, m)\<close> for a matrix \<open>m\<close>: every slice of \<open>t\<close> along its last axis
  is multiplied as a row vector with \<open>m\<close>. A scalar \<open>t\<close> and a last axis that differs
  from the rows of \<open>m\<close> raise \<^verbatim>\<open>RuntimeError\<close>.
\<close>

definition row_times :: "real list \<Rightarrow> matrix \<Rightarrow> real list" where
  "row_times r m =
     map (\<lambda>j. sum_list (map (\<lambda>i. r ! i * entries m ! (i * ncols m + j)) [0..<nrows m]))
       [0..<ncols m]"

definition torch_matmul :: "tensor \<Rightarrow> matrix \<Rightarrow> error + tensor" where
  "torch_matmul t m =
     (if shape t = [] then Inl RuntimeError
      else if last (shape t) \<noteq> nrows m then Inl RuntimeError
      else Inr \<lparr>shape = butlast (shape t) @ [ncols m],
                data = concat (map (\<lambda>r. row_times r m)
                  (rows_of (prod_list (butlast (shape t))) (last (shape t)) (data t)))\<rparr>)"

text \<open>\<^verbatim>\<open>t.squeeze()\<close> drops every axis of size one.\<close>

definition squeeze :: "tensor \<Rightarrow> tensor" where
  "squeeze t = \<lparr>shape = filter (\<lambda>d. d \<noteq> 1) (shape t), data = data t\<rparr>"

text \<open>
  \<^verbatim>\<open>torch.reshape(t, [-1, a, h])\<close>: the first axis is inferred from the number of
  entries; \<^verbatim>\<open>RuntimeError\<close> when \<open>a * h\<close> is zero or does not divide that number.
\<close>

definition torch_reshape :: "tensor \<Rightarrow> nat \<Rightarrow> nat \<Rightarrow> error + tensor" where
  "torch_reshape t a h =
     (let total = prod_list (shape t)
      in if a * h = 0 then Inl RuntimeError
         else if total mod (a * h) \<noteq> 0 then Inl RuntimeError
         else Inr \<lparr>shape = [total div (a * h), a, h], data = data t\<rparr>)"

text \<open>The index of the first maximal entry, as \<^verbatim>\<open>torch.argmax\<close> returns it.\<close>

fun argmax_list :: "real list \<Rightarrow> nat" where
  "argmax_list [] = 0"
| "argmax_list [x] = 0"
| "argmax_list (x # xs) = (let j = argmax_list xs in if x < xs ! j then Suc j else 0)"

text \<open>
  \<^verbatim>\<open>torch.argmax(t, dim=1)\<close>, the index tensor flattened: for a tensor of shape
  \<open>b # a # rest\<close>, one index below \<open>a\<close> for every position of the other axes.
  \<^verbatim>\<open>IndexError\<close> below rank two and on an empty axis 1.
\<close>

definition torch_argmax_dim1 :: "tensor \<Rightarrow> error + nat list" where
  "torch_argmax_dim1 t =
     (case shape t of
        b # a # rest \<Rightarrow>
          if a = 0 then Inl IndexError
          else (let r = prod_list rest
                in Inr (concat (map (\<lambda>i. map (\<lambda>k.
                     argmax_list (map (\<lambda>j. data t ! (i * a * r + j * r + k)) [0..<a]))
                     [0..<r]) [0..<b])))
      | _ \<Rightarrow> Inl IndexError)"

subsection \<open>Ensemble combination and the multi-head network\<close>

text \<open>
  \<^verbatim>\<open>combine_q_functions\<close>. The mean over the heads is taken first; the transform
  matrix is only used under \<^verbatim>\<open>'STOCHASTIC'\<close>, where \<^verbatim>\<open>None\<close> (the default) makes
  \<^verbatim>\<open>torch.matmul\<close> raise \<^verbatim>\<open>TypeError\<close>.
\<close>

definition combine_q_functions ::
  "tensor \<Rightarrow> string \<Rightarrow> matrix option \<Rightarrow> error + (tensor \<times> tensor)" where
  "combine_q_functions q_functions transform_strategy transform_matrix =
     (let q_values = torch_mean_last q_functions
      in if transform_strategy = ''STOCHASTIC'' then
           (case transform_matrix of
              None \<Rightarrow> Inl TypeError
            | Some m \<Rightarrow>
                ebind (torch_matmul q_functions m) (\<lambda>p. Inr (squeeze p, q_values)))
         else if transform_strategy = ''IDENTITY'' then Inr (q_functions, q_values)
         else Inl ValueError)"

text \<open>
  \<^verbatim>\<open>random_stochastic_matrix(dim)\<close>: \<open>dimn\<close> uniform draws (\<open>u i\<close> is the draw of row
  \<open>i\<close>) divided by their L1 norm, as a \<open>dimn \<times> 1\<close> matrix.
\<close>

definition random_stochastic_matrix :: "nat \<Rightarrow> (nat \<Rightarrow> real) \<Rightarrow> matrix" where
  "random_stochastic_matrix dimn u =
     (let mat = map u [0..<dimn]; norm1 = sum_list (map abs mat)
      in \<lparr>nrows = dimn, ncols = 1, entries = map (\<lambda>x. x / norm1) mat\<rparr>)"

text \<open>
  \<^verbatim>\<open>MultiHeadQNetwork\<close>. The convolutional stack \<^verbatim>\<open>self.network\<close> is the external
  value-estimation collaborator: a function from a batch of observations to a tensor of
  shape \<open>(batch, n_actions * num_heads)\<close>. \<open>n_actions\<close> is \<^verbatim>\<open>env.action_space.n\<close>.
\<close>

record 'o MultiHeadQNetwork =
  num_heads :: nat
  transform_strategy :: string
  transform_matrix :: "matrix option"
  network :: "'o list \<Rightarrow> tensor"
  n_actions :: nat

definition forward :: "'o MultiHeadQNetwork \<Rightarrow> 'o list \<Rightarrow> error + (tensor \<times> tensor)" where
  "forward q x =
     (let unordered_q_heads = network q x
      in ebind (torch_reshape unordered_q_heads (n_actions q) (num_heads q))
           (\<lambda>heads. combine_q_functions heads (transform_strategy q) (transform_matrix q)))"

subsection \<open>Epsilon schedule\<close>

text \<open>
  \<^verbatim>\<open>linear_schedule\<close>, the float expression read over the real numbers; the division
  raises \<^verbatim>\<open>ZeroDivisionError\<close> when \<^verbatim>\<open>duration\<close> is zero. The doubles the source
  computes differ from the real value by rounding (for \<open>(1.0, 0.01, 100, 100)\<close> the
  source gives \<open>0.01000000000000012\<close>, the real expression \<open>1/100\<close>), so nothing is
  proved here about the exact value returned: the definition is the threshold of the
  epsilon test in the action selection. The call site passes the float
  \<^verbatim>\<open>exploration_fraction * total_timesteps\<close> as duration and the step counter as t.
\<close>

definition linear_schedule :: "real \<Rightarrow> real \<Rightarrow> real \<Rightarrow> real \<Rightarrow> error + real" where
  "linear_schedule start_e end_e duration t =
     (if duration = 0 then Inl ZeroDivisionError
      else (let slope = (end_e - start_e) / duration
            in Inr (max (slope * t + start_e) end_e)))"

subsection \<open>Action selection of the decision loop\<close>

record args =
  start_e :: real
  end_e :: real
  exploration_fraction :: real
  total_timesteps :: int
  learning_start :: int
  train_frequency :: int
  save_frequency :: int
  target_network_frequency :: int
  capture_video :: bool

text \<open>
  The action of a step is either \<^verbatim>\<open>env.action_space.sample()\<close>, an integer, or the
  array \<^verbatim>\<open>torch.argmax(logits, dim=1).cpu().numpy()\<close>.
\<close>

datatype action = Sampled int | Greedy "nat list"

text \<open>
  Lines 609 to 617 of the loop body. \<open>u\<close> is the value \<^verbatim>\<open>random.random()\<close> returns and
  \<open>sampled\<close> the one \<^verbatim>\<open>env.action_space.sample()\<close> would return. The network is
  evaluated on the batch holding the one observation, before the epsilon test. With
  \<^verbatim>\<open>capture_video\<close> the loop calls \<^verbatim>\<open>env.set_q_values\<close>, which no wrapper of the
  constructed pipeline defines.
\<close>

definition select_action ::
  "'o MultiHeadQNetwork \<Rightarrow> args \<Rightarrow> 'o \<Rightarrow> int \<Rightarrow> real \<Rightarrow> int \<Rightarrow> error + action" where
  "select_action q_network a obs global_step u sampled =
     ebind (forward q_network [obs]) (\<lambda>(q_heads, logits).
     ebind (if capture_video a then Inl AttributeError else Inr ()) (\<lambda>_.
     ebind (linear_schedule (start_e a) (end_e a)
              (exploration_fraction a * real_of_int (total_timesteps a))
              (real_of_int global_step)) (\<lambda>epsilon.
       if u < epsilon then Inr (Sampled sampled)
       else ebind (torch_argmax_dim1 logits) (\<lambda>idx. Inr (Greedy idx)))))"

text \<open>
  The mean over the heads of the network's output for one observation, entry by entry:
  what the greedy choice is compared with.
\<close>

definition mean_over_heads :: "'o MultiHeadQNetwork \<Rightarrow> 'o \<Rightarrow> real list" where
  "mean_over_heads q obs =
     map (\<lambda>j. (\<Sum>k<num_heads q. data (network q [obs]) ! (j * num_heads q + k))
                / real (num_heads q)) [0..<n_actions q]"

text \<open>A two-action, two-head network and a configuration, for evaluating the model.\<close>

definition example_network :: "nat MultiHeadQNetwork" where
  "example_network = \<lparr>num_heads = 2, transform_strategy = ''STOCHASTIC'',
     transform_matrix = None,
     network = (\<lambda>x. \<lparr>shape = [length x, 4], data = concat (map (\<lambda>_. [1, 3, 5, 9]) x)\<rparr>),
     n_actions = 2\<rparr>"

definition example_args :: args where
  "example_args = \<lparr>start_e = 1, end_e = 1 / 100, exploration_fraction = 1 / 5,
     total_timesteps = 50, learning_start = 10, train_frequency = 5, save_frequency = 20,
     target_network_frequency = 15, capture_video = False\<rparr>"

subsection \<open>The training loop\<close>

text \<open>
  The loop over \<^verbatim>\<open>range(args.total_timesteps)\<close>. The world outside the loop's control
  flow (environment, networks, optimizer, replay buffer, random number generators,
  checkpoint file) is a state \<open>'w\<close> changed by four collaborators, each of which may raise:
  \<open>save_checkpoint\<close> is \<^verbatim>\<open>torch.save\<close> of lines 602 to 607, \<open>interact\<close> is lines 609 to 633
  (action selection, environment step, buffer insertion, reset on done), \<open>learning_step\<close>
  is lines 638 to 666 (new ensemble weights, sampled batch, loss, clipped optimizer
  update) and \<open>sync_target\<close> is line 670. The loop records what it invoked, in order.
\<close>

datatype event = Save int | Learn int | Sync int

record 'w collaborators =
  save_checkpoint :: "int \<Rightarrow> 'w \<Rightarrow> error + 'w"
  interact :: "int \<Rightarrow> 'w \<Rightarrow> error + 'w"
  learning_step :: "int \<Rightarrow> 'w \<Rightarrow> error + 'w"
  sync_target :: "int \<Rightarrow> 'w \<Rightarrow> error + 'w"

text \<open>Python's \<^verbatim>\<open>%\<close> on integers: the sign follows the divisor, zero raises.\<close>

definition py_mod :: "int \<Rightarrow> int \<Rightarrow> error + int" where
  "py_mod x y = (if y = 0 then Inl ZeroDivisionError else Inr (x mod y))"

text \<open>
  One iteration. The test of line 636 is a short-circuit \<^verbatim>\<open>and\<close>: the remainder is
  only taken once \<^verbatim>\<open>global_step > args.learning_start\<close> holds.
\<close>

definition loop_body ::
  "args \<Rightarrow> 'w collaborators \<Rightarrow> int \<Rightarrow> 'w \<times> event list \<Rightarrow> error + ('w \<times> event list)" where
  "loop_body a c global_step st =
     (case st of (w, evs) \<Rightarrow>
        ebind (py_mod global_step (save_frequency a)) (\<lambda>r.
        ebind (if r = 0
               then ebind (save_checkpoint c global_step w)
                      (\<lambda>w'. Inr (w', evs @ [Save global_step]))
               else Inr (w, evs)) (\<lambda>(w, evs).
        ebind (interact c global_step w) (\<lambda>w.
        ebind (if learning_start a < global_step
               then ebind (py_mod global_step (train_frequency a)) (\<lambda>r. Inr (r = 0))
               else Inr False) (\<lambda>train.
          if train then
            ebind (learning_step c global_step w) (\<lambda>w.
            ebind (py_mod global_step (target_network_frequency a)) (\<lambda>r.
              if r = 0
              then ebind (sync_target c global_step w)
                     (\<lambda>w'. Inr (w', evs @ [Learn global_step, Sync global_step]))
              else Inr (w, evs @ [Learn global_step])))
          else Inr (w, evs))))))"

fun run_steps ::
  "args \<Rightarrow> 'w collaborators \<Rightarrow> int list \<Rightarrow> 'w \<times> event list \<Rightarrow> error + ('w \<times> event list)" where
  "run_steps a c [] st = Inr st"
| "run_steps a c (global_step # rest) st =
     ebind (loop_body a c global_step st) (run_steps a c rest)"

definition train_loop :: "args \<Rightarrow> 'w collaborators \<Rightarrow> 'w \<Rightarrow> error + ('w \<times> event list)" where
  "train_loop a c w = run_steps a c [0..total_timesteps a - 1] (w, [])"

text \<open>The global steps at which a learning step was invoked, in order.\<close>

fun learning_steps_of :: "event list \<Rightarrow> int list" where
  "learning_steps_of [] = []"
| "learning_steps_of (Learn g # evs) = g # learning_steps_of evs"
| "learning_steps_of (_ # evs) = learning_steps_of evs"

definition learning_trace :: "args \<Rightarrow> 'w collaborators \<Rightarrow> 'w \<Rightarrow> error + int list" where
  "learning_trace a c w =
     (case train_loop a c w of Inl e \<Rightarrow> Inl e | Inr (w', evs) \<Rightarrow> Inr (learning_steps_of evs))"

text \<open>Collaborators that never raise and only count their invocations.\<close>

definition counting_collaborators :: "nat collaborators" where
  "counting_collaborators =
     \<lparr>save_checkpoint = (\<lambda>g w. Inr w), interact = (\<lambda>g w. Inr w),
      learning_step = (\<lambda>g w. Inr (Suc w)), sync_target = (\<lambda>g w. Inr w)\<rparr>"

text \<open>Collaborators none of which ever raises.\<close>

definition reliable :: "'w collaborators \<Rightarrow> bool" where
  "reliable c \<longleftrightarrow>
     (\<forall>g w. \<exists>w'. save_checkpoint c g w = Inr w') \<and> (\<forall>g w. \<exists>w'. interact c g w = Inr w') \<and>
     (\<forall>g w. \<exists>w'. learning_step c g w = Inr w') \<and> (\<forall>g w. \<exists>w'. sync_target c g w = Inr w')"

section \<open>Properties\<close>

lemma ebind_simps [simp]:
  "ebind (Inl e) f = Inl e"
  "ebind (Inr x) f = f x"
  by (simp_all add: ebind_def)

lemma ebind_eq_Inr_iff:
  "ebind m f = Inr y \<longleftrightarrow> (\<exists>x. m = Inr x \<and> f x = Inr y)"
  by (cases m) simp_all

subsection \<open>Reward clipping\<close>

text \<open>
  Claim C9. A step of an environment wrapped in \<^verbatim>\<open>ClipRewardEnv\<close> returns what the
  inner step returns with the reward replaced: for every real reward of the inner step
  the reward put out is in \<open>{-1, 0, 1}\<close> and has the sign of the inner reward (1 for a
  positive, -1 for a negative reward, 0 for 0); observation, done flag, info and state
  are those of the inner step, and a reset is the inner reset.
\<close>

theorem clip_reward_step:
  "(env_step e s a = Inr ((obs, r, d, i), s') \<longrightarrow>
      env_step (ClipRewardEnv e) s a = Inr ((obs, ClipRewardEnv_reward r, d, i), s')) \<and>
   (env_step (ClipRewardEnv e) s a = Inr ((obs, r', d, i), s') \<longrightarrow>
      (\<exists>x. env_step e s a = Inr ((obs, x, d, i), s') \<and> r' = ClipRewardEnv_reward x \<and>
           r' \<in> {- 1, 0, 1} \<and> (0 < x \<longrightarrow> r' = 1) \<and> (x < 0 \<longrightarrow> r' = - 1) \<and>
           (x = 0 \<longrightarrow> r' = 0))) \<and>
   env_reset (ClipRewardEnv e) s = env_reset e s \<and>
   ClipRewardEnv_reward r \<in> {- 1, 0, 1} \<and>
   (0 < r \<longrightarrow> ClipRewardEnv_reward r = 1) \<and>
   (r < 0 \<longrightarrow> ClipRewardEnv_reward r = - 1) \<and>
   (r = 0 \<longrightarrow> ClipRewardEnv_reward r = 0)"
proof -
  have sgn: "ClipRewardEnv_reward x \<in> {- 1, 0, 1} \<and>
      (0 < x \<longrightarrow> ClipRewardEnv_reward x = 1) \<and>
      (x < 0 \<longrightarrow> ClipRewardEnv_reward x = - 1) \<and>
      (x = 0 \<longrightarrow> ClipRewardEnv_reward x = 0)" for x
    by (simp add: ClipRewardEnv_reward_def np_sign_def)
  have fwd: "env_step (ClipRewardEnv e) s a = Inr ((obs, ClipRewardEnv_reward r, d, i), s')"
    if "env_step e s a = Inr ((obs, r, d, i), s')"
    using that by (simp add: ClipRewardEnv_def RewardWrapper_def)
  have bwd: "\<exists>x. env_step e s a = Inr ((obs, x, d, i), s') \<and> r' = ClipRewardEnv_reward x \<and>
           r' \<in> {- 1, 0, 1} \<and> (0 < x \<longrightarrow> r' = 1) \<and> (x < 0 \<longrightarrow> r' = - 1) \<and>
           (x = 0 \<longrightarrow> r' = 0)"
    if h: "env_step (ClipRewardEnv e) s a = Inr ((obs, r', d, i), s')"
  proof -
    from h obtain x where
      inner: "env_step e s a = Inr ((obs, x, d, i), s')" and r': "r' = ClipRewardEnv_reward x"
      by (auto simp: ClipRewardEnv_def RewardWrapper_def ebind_eq_Inr_iff)
    show ?thesis using inner r' sgn [of x] by blast
  qed
  have rs: "env_reset (ClipRewardEnv e) s = env_reset e s"
    by (simp add: ClipRewardEnv_def RewardWrapper_def)
  show ?thesis using fwd bwd rs sgn [of r] by blast
qed

theorem clip_reward_step_witness:
  "env_step (ClipRewardEnv scripted_env) (scripted_start [(5, 7 / 2, False, 3)] (0::nat) 3) 2
     = Inr ((5, 1, False, ()),
            \<lparr>script = [], cur_lives = 3, calls = [CallStep 2], reset_obs = 0, reset_lives = 3\<rparr>) \<and>
   env_step (ClipRewardEnv scripted_env) (scripted_start [(6, - 3, False, 3)] (0::nat) 3) 2
     = Inr ((6, - 1, False, ()),
            \<lparr>script = [], cur_lives = 3, calls = [CallStep 2], reset_obs = 0, reset_lives = 3\<rparr>) \<and>
   env_step (ClipRewardEnv scripted_env) (scripted_start [(7, 0, True, 3)] (0::nat) 3) 2
     = Inr ((7, 0, True, ()),
            \<lparr>script = [], cur_lives = 3, calls = [CallStep 2], reset_obs = 0, reset_lives = 3\<rparr>)"
proof -
  let ?s' = "\<lparr>script = [], cur_lives = 3, calls = [CallStep 2], reset_obs = 0 :: nat,
               reset_lives = 3\<rparr>"
  have i1: "env_step scripted_env (scripted_start [(5, 7 / 2, False, 3)] (0::nat) 3) 2
      = Inr ((5, 7 / 2, False, ()), ?s')"
    and i2: "env_step scripted_env (scripted_start [(6, - 3, False, 3)] (0::nat) 3) 2
      = Inr ((6, - 3, False, ()), ?s')"
    and i3: "env_step scripted_env (scripted_start [(7, 0, True, 3)] (0::nat) 3) 2
      = Inr ((7, 0, True, ()), ?s')"
    by (simp_all add: scripted_env_def scripted_start_def)
  note t1 = clip_reward_step [of scripted_env "scripted_start [(5, 7 / 2, False, 3)] (0::nat) 3"
      2 5 "7 / 2" False "()" ?s']
  note t2 = clip_reward_step [of scripted_env "scripted_start [(6, - 3, False, 3)] (0::nat) 3"
      2 6 "- 3" False "()" ?s']
  note t3 = clip_reward_step [of scripted_env "scripted_start [(7, 0, True, 3)] (0::nat) 3"
      2 7 0 True "()" ?s']
  have c1: "ClipRewardEnv_reward (7 / 2) = 1" using t1 by simp
  have c2: "ClipRewardEnv_reward (- 3) = - 1" using t2 by simp
  have c3: "ClipRewardEnv_reward 0 = 0" using t3 by simp
  have "env_step (ClipRewardEnv scripted_env) (scripted_start [(5, 7 / 2, False, 3)] (0::nat) 3) 2
      = Inr ((5, ClipRewardEnv_reward (7 / 2), False, ()), ?s')"
    using t1 [THEN conjunct1, THEN mp, OF i1] .
  moreover have "env_step (ClipRewardEnv scripted_env)
        (scripted_start [(6, - 3, False, 3)] (0::nat) 3) 2
      = Inr ((6, ClipRewardEnv_reward (- 3), False, ()), ?s')"
    using t2 [THEN conjunct1, THEN mp, OF i2] .
  moreover have "env_step (ClipRewardEnv scripted_env)
        (scripted_start [(7, 0, True, 3)] (0::nat) 3) 2
      = Inr ((7, ClipRewardEnv_reward 0, True, ()), ?s')"
    using t3 [THEN conjunct1, THEN mp, OF i3] .
  ultimately show ?thesis by (simp only: c1 c2 c3) 
qed

subsection \<open>Ensemble combination\<close>

lemma sum_list_take_drop:
  "k + h \<le> length xs \<Longrightarrow> sum_list (take h (drop k xs)) = (\<Sum>j<h. (xs ! (k + j) :: real))"
proof -
  assume a: "k + h \<le> length xs"
  have len: "length (take h (drop k xs)) = h" using a by simp
  have "sum_list (take h (drop k xs)) = (\<Sum>j = 0..<h. take h (drop k xs) ! j)"
    using sum_list_sum_nth [of "take h (drop k xs)"] len by simp
  also have "\<dots> = (\<Sum>j = 0..<h. xs ! (k + j))"
    using a by (intro sum.cong) simp_all
  finally show ?thesis by (simp add: lessThan_atLeast0)
qed

lemma rows_of_nth:
  "i < n \<Longrightarrow> rows_of n h xs ! i = take h (drop (i * h) xs)"
  by (simp add: rows_of_def)

lemma length_rows_of [simp]: "length (rows_of n h xs) = n"
  by (simp add: rows_of_def)

text \<open>Entry \<open>i\<close> of the mean over the last axis averages the \<open>h\<close> head values of slice \<open>i\<close>.\<close>

lemma torch_mean_last_entry:
  assumes "shape q = sh @ [h]" and "length (data q) = prod_list sh * h" and "i < prod_list sh"
  shows "shape (torch_mean_last q) = sh \<and>
         length (data (torch_mean_last q)) = prod_list sh \<and>
         data (torch_mean_last q) ! i = (\<Sum>j<h. data q ! (i * h + j)) / real h"
proof -
  have "i * h + h \<le> prod_list sh * h"
  proof -
    have "Suc i \<le> prod_list sh" using assms(3) by simp
    then have "Suc i * h \<le> prod_list sh * h" by (rule mult_le_mono1)
    then show ?thesis by (simp add: add.commute)
  qed
  then have "sum_list (take h (drop (i * h) (data q))) = (\<Sum>j<h. data q ! (i * h + j))"
    using assms(2) by (simp add: sum_list_take_drop)
  then show ?thesis
    using assms by (simp add: torch_mean_last_def rows_of_nth Let_def)
qed

text \<open>
  Claim C5. Under \<^verbatim>\<open>'IDENTITY'\<close> the head values are returned unchanged, together with
  their mean over the heads (entry \<open>i\<close> of the mean is the average of the \<open>h\<close> head values
  of slice \<open>i\<close>); a strategy name other than \<^verbatim>\<open>'STOCHASTIC'\<close> and \<^verbatim>\<open>'IDENTITY'\<close> raises
  \<^verbatim>\<open>ValueError\<close>, so nothing is returned.
\<close>

theorem combine_identity_and_invalid_strategy:
  "combine_q_functions q ''IDENTITY'' tm = Inr (q, torch_mean_last q) \<and>
   (s \<noteq> ''STOCHASTIC'' \<and> s \<noteq> ''IDENTITY'' \<longrightarrow> combine_q_functions q s tm = Inl ValueError) \<and>
   (shape q = sh @ [h] \<and> length (data q) = prod_list sh * h \<and> i < prod_list sh \<longrightarrow>
      shape (torch_mean_last q) = sh \<and>
      data (torch_mean_last q) ! i = (\<Sum>j<h. data q ! (i * h + j)) / real h)"
  using torch_mean_last_entry [of q sh h i]
  by (simp add: combine_q_functions_def)

theorem combine_identity_and_invalid_strategy_witness:
  "combine_q_functions \<lparr>shape = [1, 2, 2], data = [1, 3, 5, 9]\<rparr> ''IDENTITY'' None
     = Inr (\<lparr>shape = [1, 2, 2], data = [1, 3, 5, 9]\<rparr>, \<lparr>shape = [1, 2], data = [2, 7]\<rparr>) \<and>
   combine_q_functions \<lparr>shape = [1, 2, 2], data = [1, 3, 5, 9]\<rparr> ''MEAN'' None = Inl ValueError \<and>
   data (torch_mean_last \<lparr>shape = [1, 2, 2], data = [1, 3, 5, 9]\<rparr>) ! 1 = (5 + 9) / 2"
  using combine_identity_and_invalid_strategy
      [of "\<lparr>shape = [1, 2, 2], data = [1, 3, 5, 9]\<rparr>" None "''MEAN''" "[1, 2]" 2 1]
  by (simp add: torch_mean_last_def rows_of_def upt_conv_Cons)

subsection \<open>Greedy action selection\<close>

lemma argmax_list_less: "xs \<noteq> [] \<Longrightarrow> argmax_list xs < length xs"
  by (induction xs rule: argmax_list.induct) (auto simp: Let_def)

lemma argmax_list_greatest:
  "j < length xs \<Longrightarrow> xs ! j \<le> xs ! argmax_list xs"
proof (induction xs arbitrary: j rule: argmax_list.induct)
  case 1
  then show ?case by simp
next
  case (2 x)
  then show ?case by simp
next
  case (3 x y ys)
  show ?case
  proof (cases j)
    case 0
    then show ?thesis by (simp add: Let_def)
  next
    case (Suc j')
    then have "(y # ys) ! j' \<le> (y # ys) ! argmax_list (y # ys)"
      using 3 by simp
    then show ?thesis using Suc by (auto simp: Let_def)
  qed
qed

lemma argmax_list_first:
  "j < argmax_list xs \<Longrightarrow> xs ! j < xs ! argmax_list xs"
proof (induction xs arbitrary: j rule: argmax_list.induct)
  case 1
  then show ?case by simp
next
  case (2 x)
  then show ?case by simp
next
  case (3 x y ys)
  show ?case
  proof (cases "x < (y # ys) ! argmax_list (y # ys)")
    case False
    then show ?thesis using 3(2) by (simp add: Let_def)
  next
    case True
    show ?thesis
    proof (cases j)
      case 0
      then show ?thesis using True by (simp add: Let_def)
    next
      case (Suc j')
      then have "j' < argmax_list (y # ys)" using 3(2) True by (simp add: Let_def)
      then have "(y # ys) ! j' < (y # ys) ! argmax_list (y # ys)" using 3(1) by simp
      then show ?thesis using Suc True by (simp add: Let_def)
    qed
  qed
qed

lemma torch_reshape_shape:
  "torch_reshape t a h = Inr r \<Longrightarrow> \<exists>b. shape r = [b, a, h] \<and> data r = data t"
  by (auto simp: torch_reshape_def Let_def split: if_splits)

lemma forward_logits_independent:
  assumes "nrows m1 = num_heads q" and "nrows m2 = num_heads q"
  shows "map_sum id snd (forward (q\<lparr>transform_matrix := Some m1\<rparr>) x)
       = map_sum id snd (forward (q\<lparr>transform_matrix := Some m2\<rparr>) x)"
proof (cases "torch_reshape (network q x) (n_actions q) (num_heads q)")
  case (Inl e)
  then show ?thesis by (simp add: forward_def)
next
  case (Inr heads)
  then obtain b where sh: "shape heads = [b, n_actions q, num_heads q]"
    using torch_reshape_shape by blast
  have "\<exists>p. torch_matmul heads m1 = Inr p" "\<exists>p. torch_matmul heads m2 = Inr p"
    using sh assms by (simp_all add: torch_matmul_def)
  then show ?thesis
    using Inr by (auto simp: forward_def combine_q_functions_def Let_def)
qed

lemma select_action_via_logits:
  "select_action q a obs g u sampled =
     ebind (map_sum id snd (forward q [obs])) (\<lambda>logits.
     ebind (if capture_video a then Inl AttributeError else Inr ()) (\<lambda>_.
     ebind (linear_schedule (start_e a) (end_e a)
              (exploration_fraction a * real_of_int (total_timesteps a))
              (real_of_int g)) (\<lambda>epsilon.
       if u < epsilon then Inr (Sampled sampled)
       else ebind (torch_argmax_dim1 logits) (\<lambda>idx. Inr (Greedy idx)))))"
  by (cases "forward q [obs]") (auto simp: select_action_def cong: if_cong)

lemma torch_argmax_dim1_row:
  assumes "0 < a" and "length xs = a"
  shows "torch_argmax_dim1 \<lparr>shape = [1, a], data = xs\<rparr> = Inr [argmax_list xs]"
proof -
  have "map (\<lambda>j. xs ! j) [0..<a] = xs"
    using assms(2) map_nth [of xs] by simp
  then show ?thesis using assms(1) by (simp add: torch_argmax_dim1_def)
qed

lemma forward_logits_batch_one:
  assumes "shape (network q x) = [1, n_actions q * num_heads q]"
    and "length (data (network q x)) = n_actions q * num_heads q"
    and "0 < n_actions q" and "0 < num_heads q"
    and "transform_strategy q = ''STOCHASTIC''"
    and "transform_matrix q = Some m" and "nrows m = num_heads q"
  shows "map_sum id snd (forward q x)
       = Inr \<lparr>shape = [1, n_actions q],
              data = map (\<lambda>j. (\<Sum>k<num_heads q. data (network q x) ! (j * num_heads q + k))
                / real (num_heads q)) [0..<n_actions q]\<rparr>"
proof -
  let ?A = "n_actions q" and ?H = "num_heads q"
  let ?heads = "\<lparr>shape = [1, ?A, ?H], data = data (network q x)\<rparr>"
  have r: "torch_reshape (network q x) ?A ?H = Inr ?heads"
    using assms by (simp add: torch_reshape_def)
  have mm: "\<exists>p. torch_matmul ?heads m = Inr p"
    using assms by (simp add: torch_matmul_def)
  have "rows_of ?A ?H (data (network q x)) ! j = take ?H (drop (j * ?H) (data (network q x)))"
    if "j < ?A" for j using that by (rule rows_of_nth)
  have mean: "torch_mean_last ?heads = \<lparr>shape = [1, ?A],
      data = map (\<lambda>j. (\<Sum>k<?H. data (network q x) ! (j * ?H + k)) / real ?H) [0..<?A]\<rparr>"
  proof -
    have "map (\<lambda>r. sum_list r / real ?H) (rows_of ?A ?H (data (network q x)))
        = map (\<lambda>j. (\<Sum>k<?H. data (network q x) ! (j * ?H + k)) / real ?H) [0..<?A]"
    proof (rule nth_equalityI)
      show "length (map (\<lambda>r. sum_list r / real ?H) (rows_of ?A ?H (data (network q x))))
          = length (map (\<lambda>j. (\<Sum>k<?H. data (network q x) ! (j * ?H + k)) / real ?H) [0..<?A])"
        by simp
    next
      fix i
      assume "i < length (map (\<lambda>r. sum_list r / real ?H) (rows_of ?A ?H (data (network q x))))"
      then have i: "i < ?A" by simp
      then have "Suc i * ?H \<le> ?A * ?H" by (intro mult_le_mono1) simp
      then have "i * ?H + ?H \<le> length (data (network q x))"
        using assms(2) by (simp add: add.commute)
      then show "map (\<lambda>r. sum_list r / real ?H) (rows_of ?A ?H (data (network q x))) ! i
          = map (\<lambda>j. (\<Sum>k<?H. data (network q x) ! (j * ?H + k)) / real ?H) [0..<?A] ! i"
        using i by (simp add: rows_of_nth sum_list_take_drop)
    qed
    then show ?thesis by (simp add: torch_mean_last_def Let_def)
  qed
  show ?thesis
    using r mm mean assms(5,6) by (auto simp: forward_def combine_q_functions_def Let_def)
qed

lemma forward_logits_determined:
  "forward q x = Inr (h, l) \<Longrightarrow>
   \<exists>heads. torch_reshape (network q x) (n_actions q) (num_heads q) = Inr heads \<and>
           l = torch_mean_last heads"
  by (auto simp: forward_def combine_q_functions_def Let_def ebind_eq_Inr_iff
      split: if_splits option.splits)

lemma select_action_results_agree:
  fixes q :: "'o MultiHeadQNetwork"
  assumes "select_action (q\<lparr>transform_matrix := tm1\<rparr>) a obs g u sampled = Inr act1"
    and "select_action (q\<lparr>transform_matrix := tm2\<rparr>) a obs g u sampled = Inr act2"
  shows "act1 = act2"
proof -
  let ?q1 = "q\<lparr>transform_matrix := tm1\<rparr>" and ?q2 = "q\<lparr>transform_matrix := tm2\<rparr>"
  from assms(1) obtain h1 l1 where f1: "forward ?q1 [obs] = Inr (h1, l1)"
    by (cases "forward ?q1 [obs]") (auto simp: select_action_def)
  from assms(2) obtain h2 l2 where f2: "forward ?q2 [obs] = Inr (h2, l2)"
    by (cases "forward ?q2 [obs]") (auto simp: select_action_def)
  have "l1 = l2"
    using forward_logits_determined [OF f1] forward_logits_determined [OF f2] by auto
  then have "select_action ?q1 a obs g u sampled = select_action ?q2 a obs g u sampled"
    using f1 f2 by (simp add: select_action_via_logits)
  then show ?thesis using assms by simp
qed

text \<open>
  Claim C8. Whatever transform matrices are installed, two runs of action selection that
  both return give the same action; two transform matrices with as many rows as the
  network has heads give the same result altogether. When the epsilon test does not
  trigger exploration (and the network's output for the one observation has shape
  \<open>(1, n_actions * num_heads)\<close>), the action is the first index maximising the mean
  over the heads.
\<close>

theorem greedy_action_ignores_transform_matrix:
  fixes q :: "'o MultiHeadQNetwork"
  assumes "nrows m1 = num_heads q" and "nrows m2 = num_heads q"
  shows
    "select_action (q\<lparr>transform_matrix := Some m1\<rparr>) a obs g u sampled
       = select_action (q\<lparr>transform_matrix := Some m2\<rparr>) a obs g u sampled \<and>
     (transform_strategy q = ''STOCHASTIC'' \<and>
      shape (network q [obs]) = [1, n_actions q * num_heads q] \<and>
      length (data (network q [obs])) = n_actions q * num_heads q \<and>
      0 < n_actions q \<and> 0 < num_heads q \<and> \<not> capture_video a \<and>
      linear_schedule (start_e a) (end_e a)
        (exploration_fraction a * real_of_int (total_timesteps a)) (real_of_int g) = Inr epsilon \<and>
      \<not> u < epsilon \<longrightarrow>
        select_action (q\<lparr>transform_matrix := Some m1\<rparr>) a obs g u sampled
          = Inr (Greedy [argmax_list (mean_over_heads q obs)]) \<and>
        argmax_list (mean_over_heads q obs) < n_actions q \<and>
        (\<forall>j<n_actions q. mean_over_heads q obs ! j
            \<le> mean_over_heads q obs ! argmax_list (mean_over_heads q obs))) \<and>
     (select_action (q\<lparr>transform_matrix := tm1\<rparr>) a obs g u sampled = Inr act1 \<and>
      select_action (q\<lparr>transform_matrix := tm2\<rparr>) a obs g u sampled = Inr act2 \<longrightarrow>
        act1 = act2)"
proof -
  have agree: "act1 = act2"
    if "select_action (q\<lparr>transform_matrix := tm1\<rparr>) a obs g u sampled = Inr act1"
      "select_action (q\<lparr>transform_matrix := tm2\<rparr>) a obs g u sampled = Inr act2"
    using that by (rule select_action_results_agree)
  have indep: "select_action (q\<lparr>transform_matrix := Some m1\<rparr>) a obs g u sampled
       = select_action (q\<lparr>transform_matrix := Some m2\<rparr>) a obs g u sampled"
    using forward_logits_independent [OF assms, of "[obs]"]
    by (simp add: select_action_via_logits)
  have greedy: "select_action (q\<lparr>transform_matrix := Some m1\<rparr>) a obs g u sampled
          = Inr (Greedy [argmax_list (mean_over_heads q obs)])"
    if "transform_strategy q = ''STOCHASTIC''"
      "shape (network q [obs]) = [1, n_actions q * num_heads q]"
      "length (data (network q [obs])) = n_actions q * num_heads q"
      "0 < n_actions q" "0 < num_heads q" "\<not> capture_video a"
      "linear_schedule (start_e a) (end_e a)
        (exploration_fraction a * real_of_int (total_timesteps a)) (real_of_int g) = Inr epsilon"
      "\<not> u < epsilon"
  proof -
    let ?q = "q\<lparr>transform_matrix := Some m1\<rparr>"
    have "map_sum id snd (forward ?q [obs])
        = Inr \<lparr>shape = [1, n_actions q], data = mean_over_heads q obs\<rparr>"
      using forward_logits_batch_one [of ?q "[obs]" m1] that assms(1)
      by (simp add: mean_over_heads_def)
    moreover have "torch_argmax_dim1 \<lparr>shape = [1, n_actions q], data = mean_over_heads q obs\<rparr>
        = Inr [argmax_list (mean_over_heads q obs)]"
      using that(4) by (intro torch_argmax_dim1_row) (simp_all add: mean_over_heads_def)
    ultimately show ?thesis
      using that(6,7,8) by (simp add: select_action_via_logits)
  qed
  have len: "length (mean_over_heads q obs) = n_actions q"
    by (simp add: mean_over_heads_def)
  have lt: "argmax_list (mean_over_heads q obs) < n_actions q" if "0 < n_actions q"
    using argmax_list_less [of "mean_over_heads q obs"] len that by (cases "mean_over_heads q obs") simp_all
  have ge: "\<forall>j<n_actions q. mean_over_heads q obs ! j
            \<le> mean_over_heads q obs ! argmax_list (mean_over_heads q obs)"
    using argmax_list_greatest [of _ "mean_over_heads q obs"] len by simp
  show ?thesis using indep greedy lt ge agree by blast
qed

theorem greedy_action_ignores_transform_matrix_witness:
  "select_action (example_network\<lparr>transform_matrix :=
       Some \<lparr>nrows = 2, ncols = 1, entries = [1 / 4, 3 / 4]\<rparr>\<rparr>) example_args 0 40 (1 / 2) 0
     = Inr (Greedy [1]) \<and>
   select_action (example_network\<lparr>transform_matrix :=
       Some \<lparr>nrows = 2, ncols = 1, entries = [1 / 2, 1 / 2]\<rparr>\<rparr>) example_args 0 40 (1 / 2) 0
     = Inr (Greedy [1])"
proof -
  let ?m1 = "\<lparr>nrows = 2, ncols = 1, entries = [1 / 4, 3 / 4]\<rparr>"
  let ?m2 = "\<lparr>nrows = 2, ncols = 1, entries = [1 / 2, 1 / 2]\<rparr>"
  have n1: "nrows ?m1 = num_heads example_network" and n2: "nrows ?m2 = num_heads example_network"
    by (simp_all add: example_network_def)
  note T = greedy_action_ignores_transform_matrix
    [OF n1 n2, of example_args 0 40 "1 / 2" 0 "1 / 100"]
  have m: "mean_over_heads example_network 0 = [2, 7]"
    by (simp add: mean_over_heads_def example_network_def upt_conv_Cons lessThan_Suc numeral_2_eq_2)
  have hyps: "transform_strategy example_network = ''STOCHASTIC'' \<and>
      shape (network example_network [0])
        = [1, n_actions example_network * num_heads example_network] \<and>
      length (data (network example_network [0]))
        = n_actions example_network * num_heads example_network \<and>
      0 < n_actions example_network \<and> 0 < num_heads example_network \<and>
      \<not> capture_video example_args \<and>
      linear_schedule (start_e example_args) (end_e example_args)
        (exploration_fraction example_args * real_of_int (total_timesteps example_args))
        (real_of_int 40) = Inr (1 / 100) \<and>
      \<not> (1 / 2 :: real) < 1 / 100"
    by (simp add: linear_schedule_def example_args_def example_network_def)
  have "select_action (example_network\<lparr>transform_matrix := Some ?m1\<rparr>) example_args 0 40 (1 / 2) 0
      = Inr (Greedy [argmax_list (mean_over_heads example_network 0)])"
    using T hyps by blast
  then have s1: "select_action (example_network\<lparr>transform_matrix := Some ?m1\<rparr>)
      example_args 0 40 (1 / 2) 0 = Inr (Greedy [1])"
    by (simp add: m)
  have "select_action (example_network\<lparr>transform_matrix := Some ?m1\<rparr>) example_args 0 40 (1 / 2) 0
      = select_action (example_network\<lparr>transform_matrix := Some ?m2\<rparr>) example_args 0 40 (1 / 2) 0"
    using T by blast
  then show ?thesis using s1 by simp
qed

subsection \<open>The training loop\<close>

lemma learning_steps_of_append:
  "learning_steps_of (xs @ ys) = learning_steps_of xs @ learning_steps_of ys"
  by (induction xs rule: learning_steps_of.induct) simp_all

lemma loop_body_learning_steps:
  assumes "loop_body a c g (w, evs) = Inr (w', evs')"
  shows "learning_steps_of evs' = learning_steps_of evs @
           (if learning_start a < g \<and> g mod train_frequency a = 0 then [g] else [])"
  using assms
  by (auto simp: loop_body_def py_mod_def ebind_def learning_steps_of_append
      split: if_splits sum.splits)

lemma run_steps_learning_steps:
  "run_steps a c gs (w, evs) = Inr (w', evs') \<Longrightarrow>
   learning_steps_of evs' = learning_steps_of evs @
     filter (\<lambda>g. learning_start a < g \<and> g mod train_frequency a = 0) gs"
proof (induction gs arbitrary: w evs)
  case Nil
  then show ?case by simp
next
  case (Cons g gs)
  from Cons.prems obtain w1 evs1 where
    b: "loop_body a c g (w, evs) = Inr (w1, evs1)" and
    r: "run_steps a c gs (w1, evs1) = Inr (w', evs')"
    by (cases "loop_body a c g (w, evs)") auto
  show ?case
    using Cons.IH [OF r] loop_body_learning_steps [OF b] by simp
qed


lemma loop_body_returns:
  assumes "reliable c" "save_frequency a \<noteq> 0" "train_frequency a \<noteq> 0"
    "target_network_frequency a \<noteq> 0"
  shows "\<exists>st'. loop_body a c g st = Inr st'"
proof -
  obtain w evs where st: "st = (w, evs)" by (cases st)
  have r: "\<And>g w. \<exists>w'. save_checkpoint c g w = Inr w'" "\<And>g w. \<exists>w'. interact c g w = Inr w'"
    "\<And>g w. \<exists>w'. learning_step c g w = Inr w'" "\<And>g w. \<exists>w'. sync_target c g w = Inr w'"
    using assms(1) by (simp_all add: reliable_def)
  obtain w1 evs1 where s1: "(if g mod save_frequency a = 0
               then ebind (save_checkpoint c g w) (\<lambda>w'. Inr (w', evs @ [Save g]))
               else Inr (w, evs)) = Inr (w1, evs1)"
    using r(1) [of g w] by (cases "g mod save_frequency a = 0") auto
  obtain w2 where s2: "interact c g w1 = Inr w2" using r(2) by blast
  obtain w3 where s3: "learning_step c g w2 = Inr w3" using r(3) by blast
  obtain w4 where s4: "sync_target c g w3 = Inr w4" using r(4) by blast
  show ?thesis
    using st s1 s2 s3 s4 assms(2-4) by (simp add: loop_body_def py_mod_def)
qed

lemma run_steps_returns:
  assumes "reliable c" "save_frequency a \<noteq> 0" "train_frequency a \<noteq> 0"
    "target_network_frequency a \<noteq> 0"
  shows "\<exists>st'. run_steps a c gs st = Inr st'"
proof (induction gs arbitrary: st)
  case Nil
  then show ?case by simp
next
  case (Cons g gs)
  obtain st1 where "loop_body a c g st = Inr st1"
    using loop_body_returns [OF assms] by blast
  then show ?case using Cons.IH [of st1] by simp
qed

text \<open>
  Claim C1, as stated, fails: with 50 steps, \<^verbatim>\<open>learning_start\<close> 10 and
  \<^verbatim>\<open>train_frequency\<close> 5 the learning steps are the seven steps 15 to 45; step 10 is
  not one of them, since the guard is \<^verbatim>\<open>global_step > args.learning_start\<close>.
\<close>

theorem learning_step_at_learning_start_counterexample:
  "learning_trace example_args counting_collaborators 0 = Inr [15, 20, 25, 30, 35, 40, 45] \<and>
   learning_trace example_args counting_collaborators 0 \<noteq> Inr [10, 15, 20, 25, 30, 35, 40, 45]"
  by code_simp

text \<open>
  Claim C1, amended. In a run of the loop that returns, a learning step is invoked at
  exactly the global steps below \<^verbatim>\<open>total_timesteps\<close> that are strictly greater than
  \<^verbatim>\<open>learning_start\<close> and multiples of \<^verbatim>\<open>train_frequency\<close>; with 50 steps,
  \<^verbatim>\<open>learning_start\<close> 10 and \<^verbatim>\<open>train_frequency\<close> 5 these are 15, 20, 25, 30, 35,
  40, 45: seven invocations. The loop returns when no collaborator raises and the three
  frequencies are not zero.
\<close>

theorem learning_steps_strictly_after_learning_start:
  "(train_loop a c w = Inr (w', evs) \<longrightarrow>
      learning_steps_of evs
        = filter (\<lambda>g. learning_start a < g \<and> g mod train_frequency a = 0)
            [0..total_timesteps a - 1]) \<and>
   (train_loop a c w = Inr (w', evs) \<and> total_timesteps a = 50 \<and> learning_start a = 10 \<and>
    train_frequency a = 5 \<longrightarrow> learning_steps_of evs = [15, 20, 25, 30, 35, 40, 45]) \<and>
   (reliable c \<and> save_frequency a \<noteq> 0 \<and> train_frequency a \<noteq> 0 \<and>
    target_network_frequency a \<noteq> 0 \<longrightarrow> (\<exists>w1 evs1. train_loop a c w = Inr (w1, evs1)))"
proof -
  have gen: "learning_steps_of evs
        = filter (\<lambda>g. learning_start a < g \<and> g mod train_frequency a = 0)
            [0..total_timesteps a - 1]" if "train_loop a c w = Inr (w', evs)"
    using run_steps_learning_steps [of a c _ w "[]" w' evs] that
    by (simp add: train_loop_def)
  have f: "filter (\<lambda>g::int. 10 < g \<and> g mod 5 = 0) [0..49] = [15, 20, 25, 30, 35, 40, 45]"
    by code_simp
  have part: "learning_steps_of evs = [15, 20, 25, 30, 35, 40, 45]"
    if "train_loop a c w = Inr (w', evs)" "total_timesteps a = 50" "learning_start a = 10"
      "train_frequency a = 5"
    using gen [OF that(1)] that(2-4) f by simp
  have tot: "\<exists>w1 evs1. train_loop a c w = Inr (w1, evs1)"
    if "reliable c" "save_frequency a \<noteq> 0" "train_frequency a \<noteq> 0"
      "target_network_frequency a \<noteq> 0"
    using run_steps_returns [OF that, of "[0..total_timesteps a - 1]" "(w, [])"]
    by (simp add: train_loop_def)
  show ?thesis using gen part tot by blast
qed

theorem learning_steps_strictly_after_learning_start_witness:
  "train_loop example_args counting_collaborators 0
     = Inr (7, [Save 0, Learn 15, Sync 15, Save 20, Learn 20, Learn 25, Learn 30, Sync 30,
                Learn 35, Save 40, Learn 40, Learn 45, Sync 45]) \<and>
   learning_steps_of [Save 0, Learn 15, Sync 15, Save 20, Learn 20, Learn 25, Learn 30, Sync 30,
                Learn 35, Save 40, Learn 40, Learn 45, Sync 45] = [15, 20, 25, 30, 35, 40, 45]"
proof -
  have run: "train_loop example_args counting_collaborators 0
     = Inr (7, [Save 0, Learn 15, Sync 15, Save 20, Learn 20, Learn 25, Learn 30, Sync 30,
                Learn 35, Save 40, Learn 40, Learn 45, Sync 45])"
    by code_simp
  have cfg: "total_timesteps example_args = 50 \<and> learning_start example_args = 10 \<and>
      train_frequency example_args = 5"
    by (simp add: example_args_def)
  show ?thesis
    using learning_steps_strictly_after_learning_start
      [of example_args counting_collaborators 0 7
        "[Save 0, Learn 15, Sync 15, Save 20, Learn 20, Learn 25, Learn 30, Sync 30,
          Learn 35, Save 40, Learn 40, Learn 45, Sync 45]"] run cfg
    by blast
qed

subsection \<open>FireResetEnv\<close>

text \<open>
  Claim C10. When \<^verbatim>\<open>FireResetEnv.reset\<close> returns, the observation it returns is the
  one produced by the inner step with action 2, taken after the inner reset, the step
  with action 1 and the reset that follows it when it reports done. When the step with
  action 2 reports done the inner environment is reset once more (the state returned is
  the state after that reset) and the observation of that reset is dropped. The reset
  returns whenever the inner environment does not raise.
\<close>

theorem fire_reset_returns_fire_step_observation:
  "(FireResetEnv_reset e s = Inr (ob, s') \<longrightarrow>
      (\<exists>ob0 s0 o1 r1 d1 i1 s1 s2 r2 d2 i2 s3.
         env_reset e s = Inr (ob0, s0) \<and>
         env_step e s0 1 = Inr ((o1, r1, d1, i1), s1) \<and>
         (if d1 then \<exists>x. env_reset e s1 = Inr (x, s2) else s2 = s1) \<and>
         env_step e s2 2 = Inr ((ob, r2, d2, i2), s3) \<and>
         (if d2 then \<exists>x. env_reset e s3 = Inr (x, s') else s' = s3))) \<and>
   (reliable_env e \<longrightarrow> (\<exists>ob1 s1. FireResetEnv_reset e s = Inr (ob1, s1)))"
proof -
  have a: "\<exists>ob0 s0 o1 r1 d1 i1 s1 s2 r2 d2 i2 s3.
         env_reset e s = Inr (ob0, s0) \<and>
         env_step e s0 1 = Inr ((o1, r1, d1, i1), s1) \<and>
         (if d1 then \<exists>x. env_reset e s1 = Inr (x, s2) else s2 = s1) \<and>
         env_step e s2 2 = Inr ((ob, r2, d2, i2), s3) \<and>
         (if d2 then \<exists>x. env_reset e s3 = Inr (x, s') else s' = s3)"
    if "FireResetEnv_reset e s = Inr (ob, s')"
    using that
    by (clarsimp simp: FireResetEnv_reset_def ebind_def split: sum.splits prod.splits if_splits;
        force)
  have b: "\<exists>ob1 s1. FireResetEnv_reset e s = Inr (ob1, s1)" if r: "reliable_env e"
  proof -
    have st: "\<And>s a. \<exists>ob r d i s'. env_step e s a = Inr ((ob, r, d, i), s')"
      using r unfolding reliable_env_def by (metis prod.exhaust)
    have rs: "\<And>s. \<exists>ob s'. env_reset e s = Inr (ob, s')"
      using r unfolding reliable_env_def by (metis prod.exhaust)
    obtain ob0 s0 where 0: "env_reset e s = Inr (ob0, s0)" using rs by blast
    obtain o1 r1 d1 i1 s1 where 1: "env_step e s0 1 = Inr ((o1, r1, d1, i1), s1)"
      using st by blast
    obtain s2 where 2: "(if d1 then ebind (env_reset e s1) (\<lambda>(_, s). Inr s) else Inr s1) = Inr s2"
    proof (cases d1)
      case True
      obtain x y where "env_reset e s1 = Inr (x, y)" using rs by blast
      then show ?thesis using that True by simp
    next
      case False
      then show ?thesis using that by simp
    qed
    obtain o2 r2 d2 i2 s3 where 3: "env_step e s2 2 = Inr ((o2, r2, d2, i2), s3)"
      using st by blast
    obtain s4 where 4: "(if d2 then ebind (env_reset e s3) (\<lambda>(_, s). Inr s) else Inr s3) = Inr s4"
    proof (cases d2)
      case True
      obtain x y where "env_reset e s3 = Inr (x, y)" using rs by blast
      then show ?thesis using that True by simp
    next
      case False
      then show ?thesis using that by simp
    qed
    show ?thesis
      using 0 1 2 3 4 by (simp add: FireResetEnv_reset_def)
  qed
  show ?thesis using a b by blast
qed

theorem fire_reset_returns_fire_step_observation_witness:
  "FireResetEnv_reset scripted_env
       (scripted_start [(10, 0, False, 3), (20, 1, True, 3)] (7::nat) 3)
     = Inr (20, \<lparr>script = [], cur_lives = 3,
                   calls = [CallReset, CallStep 1, CallStep 2, CallReset],
                   reset_obs = 7, reset_lives = 3\<rparr>) \<and>
   (\<exists>r d i s3. env_step scripted_env
        \<lparr>script = [(20, 1, True, 3)], cur_lives = 3, calls = [CallReset, CallStep 1],
           reset_obs = 7 :: nat, reset_lives = 3\<rparr> 2 = Inr ((20, r, d, i), s3) \<and> d \<and>
      env_reset scripted_env s3
        = Inr (7, \<lparr>script = [], cur_lives = 3,
                   calls = [CallReset, CallStep 1, CallStep 2, CallReset],
                   reset_obs = 7, reset_lives = 3\<rparr>))"
proof -
  let ?s = "scripted_start [(10, 0, False, 3), (20, 1, True, 3)] (7::nat) 3"
  let ?s' = "\<lparr>script = [], cur_lives = 3,
                   calls = [CallReset, CallStep 1, CallStep 2, CallReset],
                   reset_obs = 7 :: nat, reset_lives = 3\<rparr>"
  have run: "FireResetEnv_reset scripted_env ?s = Inr (20, ?s')"
    by (simp add: FireResetEnv_reset_def scripted_env_def scripted_start_def)
  from fire_reset_returns_fire_step_observation [of scripted_env ?s 20 ?s'] run
  obtain ob0 s0 o1 r1 d1 i1 s1 s2 r2 d2 i2 s3 where
    "env_reset scripted_env ?s = Inr (ob0, s0)"
    "env_step scripted_env s0 1 = Inr ((o1, r1, d1, i1), s1)"
    "if d1 then \<exists>x. env_reset scripted_env s1 = Inr (x, s2) else s2 = s1"
    "env_step scripted_env s2 2 = Inr ((20, r2, d2, i2), s3)"
    "if d2 then \<exists>x. env_reset scripted_env s3 = Inr (x, ?s') else ?s' = s3"
    by blast
  then show ?thesis
    using run by (auto simp: scripted_env_def scripted_start_def split: if_splits)
qed

subsection \<open>EpisodicLifeEnv\<close>

text \<open>
  Claim C3. Over the emulator scripted with the life counts 3, 3, 2, 2, 1, 0 and the
  inner done flag raised at the last tick only, six steps of the wrapper (from the
  constructed wrapper, or after its first reset) report done as False, False, True,
  False, True, True: True exactly at the transitions 3 to 2, 2 to 1 and 1 to 0. A reset
  after the third step, whose done was not a true termination, adds to the emulator's
  calls exactly one step with action 0 and no reset. For every inner environment, a
  reset after a step that reported done while the inner step did not is one inner step
  with action 0.
\<close>

theorem episodic_life_scripted_lives:
  "done_flags (env_run (EpisodicLifeEnv scripted_env)
       (EpisodicLifeEnv_init, scripted_start (life_script ob r) ob0 3) [a1, a2, a3, a4, a5, a6])
     = Inr [False, False, True, False, True, True] \<and>
   ebind (EpisodicLifeEnv_reset scripted_env
            (EpisodicLifeEnv_init, scripted_start (life_script ob r) ob0 3))
     (\<lambda>(_, st). done_flags (env_run (EpisodicLifeEnv scripted_env) st [a1, a2, a3, a4, a5, a6]))
     = Inr [False, False, True, False, True, True] \<and>
   ebind (env_run (EpisodicLifeEnv scripted_env)
            (EpisodicLifeEnv_init, scripted_start (life_script ob r) ob0 3) [a1, a2, a3])
     (\<lambda>(outs, st). ebind (EpisodicLifeEnv_reset scripted_env st)
        (\<lambda>(_, (self, s)). Inr (calls s)))
     = Inr [CallStep a1, CallStep a2, CallStep a3, CallStep 0] \<and>
   (EpisodicLifeEnv_step e (self, s) action = Inr ((obs, reward, True, info), (self', s')) \<and>
    env_step e s action = Inr ((obs, reward, False, info), s') \<longrightarrow>
      EpisodicLifeEnv_reset e (self', s')
        = ebind (env_step e s' 0) (\<lambda>((obs, _, _, _), s'').
            Inr (obs, (self'\<lparr>lives := ale_lives e s''\<rparr>, s''))))"
proof -
  have 1: "done_flags (env_run (EpisodicLifeEnv scripted_env)
       (EpisodicLifeEnv_init, scripted_start (life_script ob r) ob0 3) [a1, a2, a3, a4, a5, a6])
     = Inr [False, False, True, False, True, True]"
    by (simp add: done_flags_def EpisodicLifeEnv_def EpisodicLifeEnv_step_def
        EpisodicLifeEnv_init_def scripted_env_def scripted_start_def life_script_def)
  have 2: "ebind (EpisodicLifeEnv_reset scripted_env
            (EpisodicLifeEnv_init, scripted_start (life_script ob r) ob0 3))
     (\<lambda>(_, st). done_flags (env_run (EpisodicLifeEnv scripted_env) st [a1, a2, a3, a4, a5, a6]))
     = Inr [False, False, True, False, True, True]"
    by (simp add: done_flags_def EpisodicLifeEnv_def EpisodicLifeEnv_step_def
        EpisodicLifeEnv_reset_def
        EpisodicLifeEnv_init_def scripted_env_def scripted_start_def life_script_def)
  have 3: "ebind (env_run (EpisodicLifeEnv scripted_env)
            (EpisodicLifeEnv_init, scripted_start (life_script ob r) ob0 3) [a1, a2, a3])
     (\<lambda>(outs, st). ebind (EpisodicLifeEnv_reset scripted_env st)
        (\<lambda>(_, (self, s)). Inr (calls s)))
     = Inr [CallStep a1, CallStep a2, CallStep a3, CallStep 0]"
    by (simp add: EpisodicLifeEnv_def EpisodicLifeEnv_step_def
        EpisodicLifeEnv_reset_def
        EpisodicLifeEnv_init_def scripted_env_def scripted_start_def life_script_def)
  have 4: "EpisodicLifeEnv_reset e (self', s')
        = ebind (env_step e s' 0) (\<lambda>((obs, _, _, _), s'').
            Inr (obs, (self'\<lparr>lives := ale_lives e s''\<rparr>, s'')))"
    if "EpisodicLifeEnv_step e (self, s) action = Inr ((obs, reward, True, info), (self', s'))"
      "env_step e s action = Inr ((obs, reward, False, info), s')"
  proof -
    have "\<not> was_real_done self'"
      using that by (auto simp: EpisodicLifeEnv_step_def Let_def)
    then show ?thesis
      by (cases "env_step e s' 0") (auto simp: EpisodicLifeEnv_reset_def)
  qed
  show ?thesis using 1 2 3 4 by blast
qed

theorem episodic_life_scripted_lives_witness:
  "EpisodicLifeEnv_step scripted_env
       (\<lparr>lives = 3, was_real_done = False\<rparr>,
        scripted_start [(5, 1, False, 2), (6, 0, False, 2)] (4::nat) 3) 3
     = Inr ((5, 1, True, ()),
            (\<lparr>lives = 2, was_real_done = False\<rparr>,
             \<lparr>script = [(6, 0, False, 2)], cur_lives = 2, calls = [CallStep 3],
                reset_obs = 4, reset_lives = 3\<rparr>)) \<and>
   EpisodicLifeEnv_reset scripted_env
       (\<lparr>lives = 2, was_real_done = False\<rparr>,
        \<lparr>script = [(6, 0, False, 2)], cur_lives = 2, calls = [CallStep 3],
           reset_obs = 4 :: nat, reset_lives = 3\<rparr>)
     = Inr (6, (\<lparr>lives = 2, was_real_done = False\<rparr>,
                \<lparr>script = [], cur_lives = 2, calls = [CallStep 3, CallStep 0],
                   reset_obs = 4, reset_lives = 3\<rparr>))"
proof -
  let ?s = "scripted_start [(5, 1, False, 2), (6, 0, False, 2)] (4::nat) 3"
  let ?s' = "\<lparr>script = [(6, 0, False, 2)], cur_lives = 2, calls = [CallStep 3],
                reset_obs = 4 :: nat, reset_lives = 3\<rparr>"
  have st: "EpisodicLifeEnv_step scripted_env (\<lparr>lives = 3, was_real_done = False\<rparr>, ?s) 3
      = Inr ((5, 1, True, ()), (\<lparr>lives = 2, was_real_done = False\<rparr>, ?s'))"
    by (simp add: EpisodicLifeEnv_step_def scripted_env_def scripted_start_def)
  have inner: "env_step scripted_env ?s 3 = Inr ((5, 1, False, ()), ?s')"
    by (simp add: scripted_env_def scripted_start_def)
  have "EpisodicLifeEnv_reset scripted_env (\<lparr>lives = 2, was_real_done = False\<rparr>, ?s')
      = ebind (env_step scripted_env ?s' 0) (\<lambda>((obs, _, _, _), s'').
            Inr (obs, (\<lparr>lives = 2, was_real_done = False\<rparr>
                         \<lparr>lives := ale_lives scripted_env s''\<rparr>, s'')))"
    by (rule episodic_life_scripted_lives
      [where e = scripted_env and self = "\<lparr>lives = 3, was_real_done = False\<rparr>" and s = ?s
         and action = 3 and obs = 5 and reward = 1 and info = "()"
         and self' = "\<lparr>lives = 2, was_real_done = False\<rparr>" and s' = ?s',
       THEN conjunct2, THEN conjunct2, THEN conjunct2, THEN mp])
      (simp only: st inner)
  then show ?thesis using st by (simp add: scripted_env_def)
qed

subsection \<open>MaxAndSkipEnv\<close>

lemma nth_Cons_shift:
  "int i0 < k \<Longrightarrow> (x # xs) ! nat (k - int i0) = xs ! nat (k - int (Suc i0))"
proof -
  assume "int i0 < k"
  then have "nat (k - int i0) = Suc (nat (k - int (Suc i0)))" by simp
  then show ?thesis by simp
qed

lemma loop_trace:
  "MaxAndSkipEnv_loop e skip a [i0..<i0 + n] (v, s) = Inr (v', s') \<Longrightarrow>
   \<exists>outs. run_ticks e n a s = Inr (outs, s') \<and> window_ok skip i0 n v v' outs"
proof (induction n arbitrary: i0 v s)
  case 0
  then show ?case by (auto simp: window_ok_def)
next
  case (Suc n)
  have idx: "[i0..<i0 + Suc n] = i0 # [Suc i0..<Suc i0 + n]"
    by (simp add: upt_conv_Cons)
  from Suc.prems obtain ob r d i s1 where
    st: "env_step e s a = Inr ((ob, r, d, i), s1)"
    unfolding idx by (cases "env_step e s a") auto
  define v1 where "v1 = (if int i0 = skip - 2 then v\<lparr>obs_buffer0 := ob\<rparr> else v)"
  define v2 where "v2 = (if int i0 = skip - 1 then v1\<lparr>obs_buffer1 := ob\<rparr> else v1)"
  define v3 where "v3 = v2\<lparr>total_reward := total_reward v2 + r,
                 done_opt := Some d, info_opt := Some i\<rparr>"
  have body: "(if d then Inr (v3, s1)
       else MaxAndSkipEnv_loop e skip a [Suc i0..<Suc i0 + n] (v3, s1)) = Inr (v', s')"
  proof -
    have "MaxAndSkipEnv_loop e skip a (i0 # [Suc i0..<Suc i0 + n]) (v, s) = Inr (v', s')"
      using Suc.prems unfolding idx .
    then show ?thesis
      by (simp only: MaxAndSkipEnv_loop.simps st ebind_simps prod.case Let_def
          v1_def v2_def v3_def)
  qed
  have v3_total: "total_reward v3 = total_reward v + r"
    by (simp add: v1_def v2_def v3_def)
  have v3_b0: "obs_buffer0 v3 = (if int i0 = skip - 2 then ob else obs_buffer0 v)"
    by (simp add: v1_def v2_def v3_def)
  have v3_b1: "obs_buffer1 v3 = (if int i0 = skip - 1 then ob else obs_buffer1 v)"
    by (simp add: v1_def v2_def v3_def)
  have v3_d: "done_opt v3 = Some d" "info_opt v3 = Some i"
    by (simp_all add: v3_def)
  show ?case
  proof (cases d)
    case True
    then have eq: "v' = v3" "s' = s1" using body by simp_all
    have "run_ticks e (Suc n) a s = Inr ([(ob, r, d, i)], s')"
      using st True eq by simp
    moreover have "window_ok skip i0 (Suc n) v v' [(ob, r, d, i)]"
      using True eq v3_total v3_b0 v3_b1 v3_d by (auto simp: window_ok_def)
    ultimately show ?thesis by blast
  next
    case False
    then have "MaxAndSkipEnv_loop e skip a [Suc i0..<Suc i0 + n] (v3, s1) = Inr (v', s')"
      using body by (simp del: upt_Suc)
    from Suc.IH [OF this] obtain outs where
      rt: "run_ticks e n a s1 = Inr (outs, s')" and ok: "window_ok skip (Suc i0) n v3 v' outs"
      by blast
    have run: "run_ticks e (Suc n) a s = Inr ((ob, r, d, i) # outs, s')"
      using st False rt by simp
    have n0: "n = 0 \<Longrightarrow> outs = []" using ok by (simp add: window_ok_def)
    have tot: "total_reward v' = total_reward v + sum_list (map out_reward ((ob, r, d, i) # outs))"
      using ok v3_total by (simp add: window_ok_def)
    have dn: "done_opt v' = Some (out_done (last ((ob, r, d, i) # outs))) \<and>
        info_opt v' = Some (out_info (last ((ob, r, d, i) # outs)))"
    proof (cases "n = 0")
      case True
      then show ?thesis using ok v3_d n0 by (simp add: window_ok_def)
    next
      case False
      then show ?thesis using ok by (simp add: window_ok_def)
    qed
    have len: "length ((ob, r, d, i) # outs) \<le> Suc n" using ok by (simp add: window_ok_def)
    have early: "length ((ob, r, d, i) # outs) < Suc n \<longrightarrow> out_done (last ((ob, r, d, i) # outs))"
      using ok by (auto simp: window_ok_def)
    have b0: "obs_buffer0 v' =
       (if int i0 \<le> skip - 2 \<and> skip - 2 < int i0 + int (length ((ob, r, d, i) # outs))
        then out_obs (((ob, r, d, i) # outs) ! nat (skip - 2 - int i0)) else obs_buffer0 v)"
    proof -
      consider (eq) "int i0 = skip - 2" | (lt) "int i0 < skip - 2" | (gt) "skip - 2 < int i0"
        by linarith
      then show ?thesis
      proof cases
        case eq
        then show ?thesis using ok v3_b0 by (simp add: window_ok_def)
      next
        case lt
        then show ?thesis
          using ok v3_b0 nth_Cons_shift [of i0 "skip - 2" "(ob, r, d, i)" outs]
          by (auto simp: window_ok_def)
      next
        case gt
        then show ?thesis using ok v3_b0 by (auto simp: window_ok_def)
      qed
    qed
    have b1: "obs_buffer1 v' =
       (if int i0 \<le> skip - 1 \<and> skip - 1 < int i0 + int (length ((ob, r, d, i) # outs))
        then out_obs (((ob, r, d, i) # outs) ! nat (skip - 1 - int i0)) else obs_buffer1 v)"
    proof -
      consider (eq) "int i0 = skip - 1" | (lt) "int i0 < skip - 1" | (gt) "skip - 1 < int i0"
        by linarith
      then show ?thesis
      proof cases
        case eq
        then show ?thesis using ok v3_b1 by (simp add: window_ok_def)
      next
        case lt
        then show ?thesis
          using ok v3_b1 nth_Cons_shift [of i0 "skip - 1" "(ob, r, d, i)" outs]
          by (auto simp: window_ok_def)
      next
        case gt
        then show ?thesis using ok v3_b1 by (auto simp: window_ok_def)
      qed
    qed
    have "window_ok skip i0 (Suc n) v v' ((ob, r, d, i) # outs)"
      unfolding window_ok_def using tot dn len early b0 b1 by simp
    then show ?thesis using run by blast
  qed
qed

lemma loop_returns:
  assumes "reliable_env e"
  shows "\<exists>r. MaxAndSkipEnv_loop e skip a idxs (v, s) = Inr r"
proof (induction idxs arbitrary: v s)
  case Nil
  then show ?case by simp
next
  case (Cons i0 rest)
  obtain ob r d i s1 where st: "env_step e s a = Inr ((ob, r, d, i), s1)"
    using assms unfolding reliable_env_def by (metis prod.exhaust)
  show ?case
    using Cons.IH by (cases d) (simp_all add: st Let_def)
qed

text \<open>
  Claim C4. When a step of \<^verbatim>\<open>MaxAndSkipEnv\<close> returns, its reward is the sum of the
  rewards of the ticks executed (the inner steps up to the first that reports done, at
  most \<^verbatim>\<open>skip\<close> of them), and its done flag and info are those of the last tick.
  When \<^verbatim>\<open>skip\<close> is at least 2 and no tick before tick \<^verbatim>\<open>skip - 1\<close> reports
  done, all \<^verbatim>\<open>skip\<close> ticks are executed and the frame returned is the element-wise
  maximum of the frames of ticks \<^verbatim>\<open>skip - 2\<close> and \<^verbatim>\<open>skip - 1\<close>. The step returns
  whenever \<^verbatim>\<open>skip\<close> is at least 1 and the inner environment does not raise.
\<close>

theorem max_and_skip_window:
  fixes e :: "('s, frame, 'i) env"
  shows "(MaxAndSkipEnv_step e skip (buf, s) action = Inr ((max_frame, reward_sum, d, last_info), (buf', s')) \<longrightarrow>
      (\<exists>outs. run_ticks e (nat skip) action s = Inr (outs, s') \<and> outs \<noteq> [] \<and>
         reward_sum = sum_list (map out_reward outs) \<and>
         d = out_done (last outs) \<and> last_info = out_info (last outs) \<and>
         (2 \<le> skip \<and> (\<forall>k<length outs. int k < skip - 1 \<longrightarrow> \<not> out_done (outs ! k)) \<longrightarrow>
            length outs = nat skip \<and>
            max_frame = map2 max (out_obs (outs ! nat (skip - 2)))
                          (out_obs (outs ! nat (skip - 1)))))) \<and>
   (reliable_env e \<and> 1 \<le> skip \<longrightarrow>
      (\<exists>res. MaxAndSkipEnv_step e skip (buf, s) action = Inr res))"
proof -
  obtain b0 b1 where buf: "buf = (b0, b1)" by (cases buf)
  let ?v0 = "\<lparr>obs_buffer0 = b0, obs_buffer1 = b1, total_reward = 0,
                   done_opt = None, info_opt = (None :: 'i option)\<rparr>"
  have a: "\<exists>outs. run_ticks e (nat skip) action s = Inr (outs, s') \<and> outs \<noteq> [] \<and>
         reward_sum = sum_list (map out_reward outs) \<and>
         d = out_done (last outs) \<and> last_info = out_info (last outs) \<and>
         (2 \<le> skip \<and> (\<forall>k<length outs. int k < skip - 1 \<longrightarrow> \<not> out_done (outs ! k)) \<longrightarrow>
            length outs = nat skip \<and>
            max_frame = map2 max (out_obs (outs ! nat (skip - 2)))
                          (out_obs (outs ! nat (skip - 1))))"
    if h: "MaxAndSkipEnv_step e skip (buf, s) action
        = Inr ((max_frame, reward_sum, d, last_info), (buf', s'))"
  proof -
    from h obtain v' where
      lp: "MaxAndSkipEnv_loop e skip action [0..<0 + nat skip] (?v0, s) = Inr (v', s')" and
      dn: "done_opt v' = Some d" "info_opt v' = Some last_info" and
      fr: "max_frame = obs_buffer_max (obs_buffer0 v') (obs_buffer1 v')" and
      tt: "reward_sum = total_reward v'"
      unfolding MaxAndSkipEnv_step_def buf
      by (auto simp: ebind_eq_Inr_iff Let_def split: option.splits)
    from loop_trace [OF lp] obtain outs where
      rt: "run_ticks e (nat skip) action s = Inr (outs, s')" and
      ok: "window_ok skip 0 (nat skip) ?v0 v' outs"
      by blast
    have pos: "0 < nat skip"
    proof (rule ccontr)
      assume "\<not> 0 < nat skip"
      then have "v' = ?v0" using ok by (simp add: window_ok_def)
      then show False using dn by simp
    qed
    then have ne: "outs \<noteq> []" and
      d': "d = out_done (last outs)" and i': "last_info = out_info (last outs)"
      using ok dn by (simp_all add: window_ok_def)
    have rsum: "reward_sum = sum_list (map out_reward outs)"
      using ok tt by (simp add: window_ok_def)
    have frame: "length outs = nat skip \<and>
            max_frame = map2 max (out_obs (outs ! nat (skip - 2)))
                          (out_obs (outs ! nat (skip - 1)))"
      if s2: "2 \<le> skip" and
        nd: "\<forall>k<length outs. int k < skip - 1 \<longrightarrow> \<not> out_done (outs ! k)"
    proof -
      have len: "length outs = nat skip"
      proof (rule ccontr)
        assume "length outs \<noteq> nat skip"
        then have lt: "length outs < nat skip" using ok by (simp add: window_ok_def)
        then have "out_done (last outs)" using ok by (simp add: window_ok_def)
        then have "out_done (outs ! (length outs - 1))" using ne by (simp add: last_conv_nth)
        moreover have "length outs - 1 < length outs" using ne by simp
        moreover have "int (length outs - 1) < skip - 1" using lt ne by (cases outs) auto
        ultimately show False using nd by blast
      qed
      have "obs_buffer0 v' = out_obs (outs ! nat (skip - 2))"
        "obs_buffer1 v' = out_obs (outs ! nat (skip - 1))"
        using ok len s2 by (simp_all add: window_ok_def)
      then show ?thesis using len fr by (simp add: obs_buffer_max_def)
    qed
    show ?thesis using rt ne rsum d' i' frame by blast
  qed
  have b: "\<exists>res. MaxAndSkipEnv_step e skip (buf, s) action = Inr res"
    if r: "reliable_env e" and s1: "1 \<le> skip"
  proof -
    obtain v' s' where
      lp: "MaxAndSkipEnv_loop e skip action [0..<0 + nat skip] (?v0, s) = Inr (v', s')"
      using loop_returns [OF r, of skip action "[0..<0 + nat skip]" ?v0 s] by auto
    from loop_trace [OF lp] obtain outs where
      ok: "window_ok skip 0 (nat skip) ?v0 v' outs"
      by blast
    have "0 < nat skip" using s1 by simp
    then obtain d0 i0 where "done_opt v' = Some d0" "info_opt v' = Some i0"
      using ok by (simp add: window_ok_def)
    then show ?thesis
      using lp unfolding MaxAndSkipEnv_step_def buf by (simp add: Let_def)
  qed
  show ?thesis using a b by blast
qed

theorem max_and_skip_window_witness:
  "MaxAndSkipEnv_step scripted_env 4
       (MaxAndSkipEnv_init 2, scripted_start flicker_script [] 3) 0
     = Inr (([5, 7], 9 / 2, False, ()),
            (([3, 7], [5, 4]),
             \<lparr>script = [], cur_lives = 3,
                calls = [CallStep 0, CallStep 0, CallStep 0, CallStep 0],
                reset_obs = [], reset_lives = 3\<rparr>)) \<and>
   (\<exists>outs. run_ticks scripted_env (nat 4) 0 (scripted_start flicker_script [] 3)
        = Inr (outs, \<lparr>script = [], cur_lives = 3,
                calls = [CallStep 0, CallStep 0, CallStep 0, CallStep 0],
                reset_obs = [], reset_lives = 3\<rparr>) \<and>
      9 / 2 = sum_list (map out_reward outs) \<and> length outs = nat 4 \<and>
      [5, 7] = map2 max (out_obs (outs ! nat (4 - 2))) (out_obs (outs ! nat (4 - 1))))"
proof -
  let ?s = "scripted_start flicker_script [] 3"
  let ?s' = "\<lparr>script = [], cur_lives = 3,
                calls = [CallStep 0, CallStep 0, CallStep 0, CallStep 0],
                reset_obs = [] :: frame, reset_lives = 3\<rparr>"
  have run: "MaxAndSkipEnv_step scripted_env 4 (MaxAndSkipEnv_init 2, ?s) 0
     = Inr (([5, 7], 9 / 2, False, ()), (([3, 7], [5, 4]), ?s'))"
    by (simp add: MaxAndSkipEnv_step_def MaxAndSkipEnv_init_def obs_buffer_max_def
        upt_conv_Cons Let_def scripted_env_def scripted_start_def flicker_script_def)
  have ticks: "run_ticks scripted_env (nat 4) 0 ?s
      = Inr ([([1, 9], 1, False, ()), ([2, 8], 2, False, ()), ([3, 7], 1 / 2, False, ()),
              ([5, 4], 1, False, ())], ?s')"
    by (simp add: eval_nat_numeral scripted_env_def scripted_start_def flicker_script_def)
  note T = max_and_skip_window [of scripted_env 4 "MaxAndSkipEnv_init 2" ?s 0
      "[5, 7]" "9 / 2" False "()" "([3, 7], [5, 4])" ?s', THEN conjunct1, THEN mp, OF run]
  then obtain outs where o:
    "run_ticks scripted_env (nat 4) 0 ?s = Inr (outs, ?s') \<and> outs \<noteq> [] \<and>
     9 / 2 = sum_list (map out_reward outs) \<and>
     False = out_done (last outs) \<and> () = out_info (last outs) \<and>
     ((2::int) \<le> 4 \<and> (\<forall>k<length outs. int k < 4 - 1 \<longrightarrow> \<not> out_done (outs ! k)) \<longrightarrow>
            length outs = nat 4 \<and>
            [5, 7] = map2 max (out_obs (outs ! nat (4 - 2))) (out_obs (outs ! nat (4 - 1))))"
    ..
  have outs: "outs = [([1, 9], 1, False, ()), ([2, 8], 2, False, ()), ([3, 7], 1 / 2, False, ()),
              ([5, 4], 1, False, ())]"
    using o ticks by simp
  have nd: "\<forall>k<length outs. int k < 4 - 1 \<longrightarrow> \<not> out_done (outs ! k)"
    unfolding outs by (simp add: nth_Cons' )
  have fr: "length outs = nat 4 \<and>
            [5, 7] = map2 max (out_obs (outs ! nat (4 - 2))) (out_obs (outs ! nat (4 - 1)))"
    using o nd by simp
  have "run_ticks scripted_env (nat 4) 0 ?s = Inr (outs, ?s') \<and>
      9 / 2 = sum_list (map out_reward outs) \<and> length outs = nat 4 \<and>
      [5, 7] = map2 max (out_obs (outs ! nat (4 - 2))) (out_obs (outs ! nat (4 - 1)))"
    using o fr by simp
  then have "\<exists>outs. run_ticks scripted_env (nat 4) 0 ?s = Inr (outs, ?s') \<and>
      9 / 2 = sum_list (map out_reward outs) \<and> length outs = nat 4 \<and>
      [5, 7] = map2 max (out_obs (outs ! nat (4 - 2))) (out_obs (outs ! nat (4 - 1)))"
    by (rule exI)
  then show ?thesis using run by (rule conjI [rotated])
qed

subsection \<open>FrameStack\<close>

lemma deque_append_last_k:
  "length frames \<le> k \<Longrightarrow> deque_append k frames x = last_k k (frames @ [x])"
proof (cases "length frames = k")
  case True
  then have lt: "k < length (frames @ [x])" and d: "length (frames @ [x]) - k = 1" by simp_all
  have "deque_append k frames x = tl (frames @ [x])"
    using lt by (simp add: deque_append_def Let_def)
  also have "\<dots> = drop 1 (frames @ [x])" by (simp only: One_nat_def drop_Suc drop_0)
  also have "\<dots> = last_k k (frames @ [x])" by (simp only: last_k_def d)
  finally show ?thesis .
next
  case False
  assume "length frames \<le> k"
  then have "\<not> k < length (frames @ [x])" "length (frames @ [x]) - k = 0"
    using False by simp_all
  then show ?thesis by (simp add: deque_append_def last_k_def Let_def)
qed

lemma length_last_k [simp]: "length (last_k k xs) = min k (length xs)"
  by (simp add: last_k_def)

lemma last_k_append_last_k:
  "last_k k (last_k k xs @ ys) = last_k k (xs @ ys)"
  by (cases "k \<le> length xs") (simp_all add: last_k_def add.commute)

lemma fold_deque_append:
  "length frames \<le> k \<Longrightarrow>
   fold (\<lambda>_ fs. deque_append k fs ob) idxs frames = last_k k (frames @ replicate (length idxs) ob)"
proof (induction idxs arbitrary: frames)
  case Nil
  then show ?case by (simp add: last_k_def)
next
  case (Cons i idxs)
  have "length (deque_append k frames ob) \<le> k"
    using Cons.prems by (simp add: deque_append_last_k)
  then have "fold (\<lambda>_ fs. deque_append k fs ob) idxs (deque_append k frames ob)
      = last_k k (deque_append k frames ob @ replicate (length idxs) ob)"
    by (rule Cons.IH)
  also have "\<dots> = last_k k ((frames @ [ob]) @ replicate (length idxs) ob)"
    using Cons.prems by (simp only: deque_append_last_k last_k_append_last_k)
  finally show ?case by (simp add: replicate_app_Cons_same)
qed

lemma reset_fill:
  "length frames \<le> k \<Longrightarrow>
   fold (\<lambda>_ fs. deque_append k fs ob) [0..<k] frames = replicate k ob"
  by (simp add: fold_deque_append last_k_def)

lemma FrameStack_step_eq:
  assumes "length frames = k"
  shows "FrameStack_step e k (frames, s) a =
     ebind (env_step e s a) (\<lambda>((ob, reward, done, info), s').
       Inr ((LazyFrames_init (last_k k (frames @ [ob])), reward, done, info),
            (last_k k (frames @ [ob]), s')))"
proof (cases "env_step e s a")
  case (Inl err)
  then show ?thesis by (simp add: FrameStack_step_def)
next
  case (Inr res)
  obtain ob r d i s' where res: "res = ((ob, r, d, i), s')" by (metis prod.exhaust)
  have "deque_append k frames ob = last_k k (frames @ [ob])"
    using assms by (simp add: deque_append_last_k)
  moreover have "length (last_k k (frames @ [ob])) = k" using assms by simp
  ultimately show ?thesis
    using Inr res by (simp add: FrameStack_step_def FrameStack_get_ob_def Let_def)
qed

lemma FrameStack_run:
  fixes e :: "('s, 'c list, 'i) env"
  assumes "length frames = k"
    and "env_run (FrameStack e k) (frames, s) acts = Inr (outs, (frames', s'))"
  shows "\<exists>inner. env_run e s acts = Inr (inner, s') \<and> length outs = length inner \<and>
           frames' = last_k k (frames @ map out_obs inner) \<and>
           (\<forall>n<length inner.
              outs ! n = (LazyFrames_init (last_k k (frames @ map out_obs (take (Suc n) inner))),
                          out_reward (inner ! n), out_done (inner ! n), out_info (inner ! n)))"
  using assms
proof (induction acts arbitrary: frames s outs)
  case Nil
  then show ?case by (simp add: last_k_def)
next
  case (Cons a acts)
  from Cons.prems(2) obtain out1 st1 outs1 where
    s1: "env_step (FrameStack e k) (frames, s) a = Inr (out1, st1)" and
    r1: "env_run (FrameStack e k) st1 acts = Inr (outs1, (frames', s'))" and
    o: "outs = out1 # outs1"
    by (auto simp: ebind_eq_Inr_iff)
  have "FrameStack_step e k (frames, s) a = Inr (out1, st1)"
    using s1 by (simp add: FrameStack_def)
  then obtain ob r d i s1' where
    i1: "env_step e s a = Inr ((ob, r, d, i), s1')" and
    out1: "out1 = (LazyFrames_init (last_k k (frames @ [ob])), r, d, i)" and
    st1: "st1 = (last_k k (frames @ [ob]), s1')"
    unfolding FrameStack_step_eq [OF Cons.prems(1)]
    by (auto simp: ebind_eq_Inr_iff)
  have len1: "length (last_k k (frames @ [ob])) = k" using Cons.prems(1) by simp
  from Cons.IH [OF len1 r1 [unfolded st1]] obtain inner where
    ir: "env_run e s1' acts = Inr (inner, s')" and
    il: "length outs1 = length inner" and
    fr: "frames' = last_k k (last_k k (frames @ [ob]) @ map out_obs inner)" and
    nth: "\<forall>n<length inner.
              outs1 ! n = (LazyFrames_init
                 (last_k k (last_k k (frames @ [ob]) @ map out_obs (take (Suc n) inner))),
                 out_reward (inner ! n), out_done (inner ! n), out_info (inner ! n))"
    by blast
  let ?inner = "(ob, r, d, i) # inner"
  have 1: "env_run e s (a # acts) = Inr (?inner, s')" using i1 ir by simp
  have 2: "length outs = length ?inner" using o il by simp
  have 3: "frames' = last_k k (frames @ map out_obs ?inner)"
    using fr by (simp add: last_k_append_last_k)
  have 4: "outs ! n = (LazyFrames_init (last_k k (frames @ map out_obs (take (Suc n) ?inner))),
                          out_reward (?inner ! n), out_done (?inner ! n), out_info (?inner ! n))"
    if "n < length ?inner" for n
  proof (cases n)
    case 0
    then show ?thesis using o out1 by simp
  next
    case (Suc m)
    then have "m < length inner" using that by simp
    then show ?thesis using nth o Suc by (simp add: last_k_append_last_k)
  qed
  show ?case using 1 2 3 4 by blast
qed

lemma FrameStack_run_returns:
  fixes e :: "('s, 'c list, 'i) env"
  assumes "reliable_env e" and "length frames = k"
  shows "\<exists>res. env_run (FrameStack e k) (frames, s) acts = Inr res"
  using assms(2)
proof (induction acts arbitrary: frames s)
  case Nil
  then show ?case by simp
next
  case (Cons a acts)
  obtain ob r d i s1 where i1: "env_step e s a = Inr ((ob, r, d, i), s1)"
    using assms(1) unfolding reliable_env_def by (metis prod.exhaust)
  have st: "env_step (FrameStack e k) (frames, s) a
      = Inr ((LazyFrames_init (last_k k (frames @ [ob])), r, d, i), (last_k k (frames @ [ob]), s1))"
    using i1 by (simp add: FrameStack_def FrameStack_step_eq [OF Cons.prems])
  have "length (last_k k (frames @ [ob])) = k" using Cons.prems by simp
  from Cons.IH [OF this, of s1] obtain outs st' where
    "env_run (FrameStack e k) (last_k k (frames @ [ob]), s1) acts = Inr (outs, st')"
    by (metis prod.exhaust)
  then show ?case using st by simp
qed

lemma LazyFrames_array_init:
  "LazyFrames_array (LazyFrames_init frames) =
     (if frames = [] then Inl ValueError
      else Inr (concat frames, \<lparr>lf_frames = None, lf_out = Some (concat frames)\<rparr>))"
  by (simp add: LazyFrames_array_def LazyFrames_force_def LazyFrames_init_def np_concatenate_def)

lemma FrameStack_reset_eq:
  assumes "length frames \<le> k"
  shows "FrameStack_reset e k (frames, s) =
     ebind (env_reset e s) (\<lambda>(ob, s').
       Inr (LazyFrames_init (replicate k ob), (replicate k ob, s')))"
  by (cases "env_reset e s")
    (auto simp: FrameStack_reset_def FrameStack_get_ob_def reset_fill [OF assms] Let_def)

lemma last_k_append_long:
  "k \<le> length ys \<Longrightarrow> last_k k (xs @ ys) = last_k k ys"
  by (simp add: last_k_def)

text \<open>
  Claim C7. A reset of \<^verbatim>\<open>FrameStack\<close> leaves exactly \<open>k\<close> entries in the window, all
  equal to the reset observation. From a window of \<open>k\<close> entries, every step leaves \<open>k\<close>
  entries: the window after a step is the last \<open>k\<close> entries of the earlier window
  followed by the step observations so far, oldest first (from step \<open>k\<close> on these are
  the last \<open>k\<close> step observations alone), and materialising the observation returned
  gives their concatenation along axis 0 (for \<open>k = 0\<close> the concatenation of no arrays
  raises). Neither reset nor step raises unless the inner environment does.
\<close>

theorem frame_stack_window:
  fixes e :: "('s, 'c list, 'i) env"
  shows
  "(length frames0 \<le> k \<and> FrameStack_reset e k (frames0, s) = Inr (lf, (frames1, s1)) \<longrightarrow>
      (\<exists>ob. env_reset e s = Inr (ob, s1) \<and> frames1 = replicate k ob \<and> length frames1 = k \<and>
            lf = LazyFrames_init (replicate k ob))) \<and>
   (length frames1 = k \<and>
    env_run (FrameStack e k) (frames1, s1) acts = Inr (outs, (frames2, s2)) \<longrightarrow>
      (\<exists>inner. env_run e s1 acts = Inr (inner, s2) \<and> length outs = length inner \<and>
         length frames2 = k \<and> frames2 = last_k k (frames1 @ map out_obs inner) \<and>
         (\<forall>n<length inner.
            out_obs (outs ! n)
              = LazyFrames_init (last_k k (frames1 @ map out_obs (take (Suc n) inner))) \<and>
            length (last_k k (frames1 @ map out_obs (take (Suc n) inner))) = k \<and>
            (k \<le> Suc n \<longrightarrow> last_k k (frames1 @ map out_obs (take (Suc n) inner))
               = last_k k (map out_obs (take (Suc n) inner))) \<and>
            map_sum id fst (LazyFrames_array (out_obs (outs ! n)))
              = (if k = 0 then Inl ValueError
                 else Inr (concat (last_k k (frames1 @ map out_obs (take (Suc n) inner)))))))) \<and>
   (reliable_env e \<and> length frames0 \<le> k \<longrightarrow>
      (\<exists>res. FrameStack_reset e k (frames0, s) = Inr res)) \<and>
   (reliable_env e \<and> length frames1 = k \<longrightarrow>
      (\<exists>res. env_run (FrameStack e k) (frames1, s1) acts = Inr res))"
proof -
  have a: "\<exists>ob. env_reset e s = Inr (ob, s1) \<and> frames1 = replicate k ob \<and> length frames1 = k \<and>
            lf = LazyFrames_init (replicate k ob)"
    if "length frames0 \<le> k" "FrameStack_reset e k (frames0, s) = Inr (lf, (frames1, s1))"
    using that(2) unfolding FrameStack_reset_eq [OF that(1)]
    by (auto simp: ebind_eq_Inr_iff)
  have b: "\<exists>inner. env_run e s1 acts = Inr (inner, s2) \<and> length outs = length inner \<and>
         length frames2 = k \<and> frames2 = last_k k (frames1 @ map out_obs inner) \<and>
         (\<forall>n<length inner.
            out_obs (outs ! n)
              = LazyFrames_init (last_k k (frames1 @ map out_obs (take (Suc n) inner))) \<and>
            length (last_k k (frames1 @ map out_obs (take (Suc n) inner))) = k \<and>
            (k \<le> Suc n \<longrightarrow> last_k k (frames1 @ map out_obs (take (Suc n) inner))
               = last_k k (map out_obs (take (Suc n) inner))) \<and>
            map_sum id fst (LazyFrames_array (out_obs (outs ! n)))
              = (if k = 0 then Inl ValueError
                 else Inr (concat (last_k k (frames1 @ map out_obs (take (Suc n) inner))))))"
    if len: "length frames1 = k"
      and run: "env_run (FrameStack e k) (frames1, s1) acts = Inr (outs, (frames2, s2))"
  proof -
    from FrameStack_run [OF len run] obtain inner where
      ir: "env_run e s1 acts = Inr (inner, s2)" and
      il: "length outs = length inner" and
      fr: "frames2 = last_k k (frames1 @ map out_obs inner)" and
      nth: "\<forall>n<length inner.
              outs ! n = (LazyFrames_init (last_k k (frames1 @ map out_obs (take (Suc n) inner))),
                          out_reward (inner ! n), out_done (inner ! n), out_info (inner ! n))"
      by blast
    have l2: "length frames2 = k" using fr len by simp
    have each: "out_obs (outs ! n)
              = LazyFrames_init (last_k k (frames1 @ map out_obs (take (Suc n) inner))) \<and>
            length (last_k k (frames1 @ map out_obs (take (Suc n) inner))) = k \<and>
            (k \<le> Suc n \<longrightarrow> last_k k (frames1 @ map out_obs (take (Suc n) inner))
               = last_k k (map out_obs (take (Suc n) inner))) \<and>
            map_sum id fst (LazyFrames_array (out_obs (outs ! n)))
              = (if k = 0 then Inl ValueError
                 else Inr (concat (last_k k (frames1 @ map out_obs (take (Suc n) inner)))))"
      if n: "n < length inner" for n
    proof -
      let ?w = "last_k k (frames1 @ map out_obs (take (Suc n) inner))"
      have o: "out_obs (outs ! n) = LazyFrames_init ?w" using nth n by simp
      have lw: "length ?w = k" using len by simp
      have lt: "length (map out_obs (take (Suc n) inner)) = Suc n" using n by simp
      have long: "k \<le> Suc n \<longrightarrow> ?w = last_k k (map out_obs (take (Suc n) inner))"
        using lt last_k_append_long [of k "map out_obs (take (Suc n) inner)" frames1] by simp
      have "?w = [] \<longleftrightarrow> k = 0" using lw length_0_conv [of ?w] by metis
      then have "map_sum id fst (LazyFrames_array (out_obs (outs ! n)))
              = (if k = 0 then Inl ValueError else Inr (concat ?w))"
        unfolding o LazyFrames_array_init by simp
      then show ?thesis using o lw long by blast
    qed
    show ?thesis using ir il l2 fr each by blast
  qed
  have c: "\<exists>res. FrameStack_reset e k (frames0, s) = Inr res"
    if rel: "reliable_env e" and l0: "length frames0 \<le> k"
  proof -
    obtain ob s' where "env_reset e s = Inr (ob, s')"
      using rel unfolding reliable_env_def by (metis prod.exhaust)
    then show ?thesis by (simp add: FrameStack_reset_eq [OF l0])
  qed
  have d: "\<exists>res. env_run (FrameStack e k) (frames1, s1) acts = Inr res"
    if "reliable_env e" "length frames1 = k"
    using FrameStack_run_returns [OF that] .
  show ?thesis using a b c d by blast
qed

theorem frame_stack_window_witness:
  "FrameStack_reset scripted_env 4 ([], scripted_start marker_script [0] 3)
     = Inr (LazyFrames_init [[0], [0], [0], [0]],
            ([[0], [0], [0], [0]],
             \<lparr>script = marker_script, cur_lives = 3, calls = [CallReset],
                reset_obs = [0], reset_lives = 3\<rparr>)) \<and>
   (\<exists>outs. env_run (FrameStack scripted_env 4)
        ([[0], [0], [0], [0]],
         \<lparr>script = marker_script, cur_lives = 3, calls = [CallReset],
            reset_obs = [0], reset_lives = 3\<rparr>) [0, 0, 0, 0, 0]
      = Inr (outs, ([[2], [3], [4], [5]],
                    \<lparr>script = [], cur_lives = 3,
                       calls = [CallReset, CallStep 0, CallStep 0, CallStep 0, CallStep 0,
                                CallStep 0],
                       reset_obs = [0], reset_lives = 3\<rparr>)) \<and>
      map_sum id fst (LazyFrames_array (out_obs (outs ! 4))) = Inr [2, 3, 4, 5])"
proof -
  let ?s0 = "scripted_start marker_script [0 :: nat] 3"
  let ?s1 = "\<lparr>script = marker_script, cur_lives = 3, calls = [CallReset],
                reset_obs = [0 :: nat], reset_lives = 3\<rparr>"
  let ?s2 = "\<lparr>script = [], cur_lives = 3,
                calls = [CallReset, CallStep 0, CallStep 0, CallStep 0, CallStep 0, CallStep 0],
                reset_obs = [0 :: nat], reset_lives = 3\<rparr>"
  let ?f1 = "[[0], [0], [0], [0 :: nat]]"
  let ?inner = "[([1], 0, False, ()), ([2], 0, False, ()), ([3], 1, False, ()),
                 ([4], 0, False, ()), ([5 :: nat], 0 :: real, False, ())]"
  have reset: "FrameStack_reset scripted_env 4 ([], ?s0) = Inr (LazyFrames_init ?f1, (?f1, ?s1))"
    by (simp add: FrameStack_reset_def FrameStack_get_ob_def deque_append_def upt_conv_Cons
        scripted_env_def scripted_start_def Let_def)
  have len: "length ?f1 = 4" by simp
  obtain res where run0: "env_run (FrameStack scripted_env 4) (?f1, ?s1) [0, 0, 0, 0, 0] = Inr res"
    by (simp add: FrameStack_def FrameStack_step_def FrameStack_get_ob_def deque_append_def
        scripted_env_def marker_script_def Let_def)
  have inner: "env_run scripted_env ?s1 [0, 0, 0, 0, 0] = Inr (?inner, ?s2)"
    by (simp add: scripted_env_def marker_script_def)
  obtain outs frames2 s2 where res: "res = (outs, (frames2, s2))"
    by (metis prod.exhaust)
  note run = run0 [unfolded res]
  note T = frame_stack_window [of "[]" 4 scripted_env ?s0 "LazyFrames_init ?f1" ?f1 ?s1
      "[0, 0, 0, 0, 0]" outs frames2 s2, THEN conjunct2, THEN conjunct1, THEN mp,
      OF conjI [OF len run]]
  then obtain inner' where i:
    "env_run scripted_env ?s1 [0, 0, 0, 0, 0] = Inr (inner', s2) \<and>
     length outs = length inner' \<and> length frames2 = 4 \<and>
     frames2 = last_k 4 (?f1 @ map out_obs inner') \<and>
     (\<forall>n<length inner'.
        out_obs (outs ! n)
          = LazyFrames_init (last_k 4 (?f1 @ map out_obs (take (Suc n) inner'))) \<and>
        length (last_k 4 (?f1 @ map out_obs (take (Suc n) inner'))) = 4 \<and>
        (4 \<le> Suc n \<longrightarrow> last_k 4 (?f1 @ map out_obs (take (Suc n) inner'))
           = last_k 4 (map out_obs (take (Suc n) inner'))) \<and>
        map_sum id fst (LazyFrames_array (out_obs (outs ! n)))
          = (if (4::nat) = 0 then Inl ValueError
             else Inr (concat (last_k 4 (?f1 @ map out_obs (take (Suc n) inner'))))))"
    ..
  have eq: "inner' = ?inner" "s2 = ?s2" using i inner by simp_all
  have f2: "frames2 = [[2], [3], [4], [5]]"
    using i unfolding eq by (simp add: last_k_def)
  have l4: "4 < length inner'" unfolding eq by simp
  note at4 = i [THEN conjunct2, THEN conjunct2, THEN conjunct2, THEN conjunct2,
      rule_format, OF l4, THEN conjunct2, THEN conjunct2, THEN conjunct2]
  have "map_sum id fst (LazyFrames_array (out_obs (outs ! 4)))
      = Inr (concat (last_k 4 (?f1 @ map out_obs (take (Suc 4) ?inner))))"
    using at4 unfolding eq by simp
  then have m: "map_sum id fst (LazyFrames_array (out_obs (outs ! 4))) = Inr [2, 3, 4, 5]"
    by (simp add: last_k_def)
  have "env_run (FrameStack scripted_env 4) (?f1, ?s1) [0, 0, 0, 0, 0]
      = Inr (outs, ([[2], [3], [4], [5]], ?s2)) \<and>
      map_sum id fst (LazyFrames_array (out_obs (outs ! 4))) = Inr [2, 3, 4, 5]"
    using run m f2 eq by simp
  then have "\<exists>outs. env_run (FrameStack scripted_env 4) (?f1, ?s1) [0, 0, 0, 0, 0]
      = Inr (outs, ([[2], [3], [4], [5]], ?s2)) \<and>
      map_sum id fst (LazyFrames_array (out_obs (outs ! 4))) = Inr [2, 3, 4, 5]"
    by (rule exI)
  then show ?thesis using reset by (rule conjI [rotated])
qed

subsection \<open>The pipeline built for training\<close>

lemma NoFrameskip_in_id: "sublist ''NoFrameskip'' ''BreakoutNoFrameskip-v4''"
  by code_simp

text \<open>
  Claim C2 does not hold of the code. The loop's comment says that
  \<^verbatim>\<open>EpisodicLifeEnv\<close> is applied, but the pipeline is built with
  \<^verbatim>\<open>episode_life=False\<close>: on a step in which the life count falls from 3 to 2 and no
  tick reports done, the pipeline built for training reports done as False, where the
  same construction with \<^verbatim>\<open>episode_life=True\<close> reports True.
\<close>

theorem training_pipeline_ignores_life_loss:
  "step_done_lives (training_env plain_ops ''BreakoutNoFrameskip-v4'' scripted_env)
       life_loss_state 0 = Inr (False, 3, 2) \<and>
   step_done_lives (pipeline True plain_ops ''BreakoutNoFrameskip-v4'' scripted_env)
       life_loss_state 0 = Inr (True, 3, 2)"
  by (simp add: step_done_lives_def training_env_def pipeline_def wrap_atari_def
      NoFrameskip_in_id NoopResetEnv_def MaxAndSkipEnv_def MaxAndSkipEnv_step_def
      MaxAndSkipEnv_init_def obs_buffer_max_def RecordEpisodeStatistics_def
      wrap_deepmind_def not_wrapped_def EpisodicLifeEnv_def EpisodicLifeEnv_step_def
      FireResetEnv_def FireResetEnv_step_def WarpFrame_def ClipRewardEnv_def RewardWrapper_def
      ImageToPyTorch_def ObservationWrapper_def FrameStack_def FrameStack_step_def
      FrameStack_get_ob_def deque_append_def
      scripted_env_def scripted_start_def life_loss_script_def life_loss_state_def
      plain_ops_def Let_def upt_conv_Cons)

end
